theory Spec2Isabelle
  imports Complex_Main
begin

section \<open>Data model\<close>

text \<open>
  The development embeds \<^verbatim>\<open>src/mydetect.py\<close>: \<^verbatim>\<open>letterbox\<close>, \<^verbatim>\<open>box_iou\<close>,
  \<^verbatim>\<open>xywh2xyxy\<close> and \<^verbatim>\<open>non_max_suppression\<close>.

  Tensor elements are modelled as real numbers: the arithmetic of the source is taken
  exactly, without the rounding of 32-bit floats and without infinities. The one quotient
  of the source whose divisor can be 0, the IoU, keeps its NaN as the value \<open>None\<close>.
  Python integers are \<open>int\<close>; indices and class numbers are \<open>nat\<close>.
  Every exception the modelled code can raise is a value of \<open>error\<close>, and a function
  that can raise returns \<open>error + 'a\<close> with \<open>Inl\<close> for the exception.
\<close>

datatype error = IndexError | AssertionError | RuntimeError | ZeroDivisionError | CvError

text \<open>A row \<open>[x1, y1, x2, y2]\<close> (or \<open>[x, y, w, h]\<close>) of an \<open>n \<times> 4\<close> tensor.\<close>

type_synonym box = "real \<times> real \<times> real \<times> real"

text \<open>A row \<open>[x1, y1, x2, y2, conf, cls]\<close> of the \<open>n \<times> 6\<close> detections matrix; the class
  column holds \<^verbatim>\<open>j.float()\<close>, the float of a column index, kept here as the index.\<close>

record detection =
  xyxy :: box
  conf :: real
  cls :: nat

text \<open>The prediction tensor of shape \<open>[batch, anchors, shape2]\<close>: \<open>data\<close> holds one list
  of rows per image, and \<open>shape2\<close> is \<^verbatim>\<open>prediction.shape[2]\<close>, the length of every row.\<close>

record tensor3 =
  shape2 :: nat
  data :: "real list list list"

definition wf_tensor3 :: "tensor3 \<Rightarrow> bool" where
  "wf_tensor3 p = list_all (list_all (\<lambda>r. length r = shape2 p)) (data p)"

text \<open>A row \<open>[cls, x, y, w, h]\<close> of an apriori label tensor \<^verbatim>\<open>labels[xi]\<close>.\<close>

type_synonym label = "real \<times> real \<times> real \<times> real \<times> real"

section \<open>Box geometry\<close>

text \<open>\<^verbatim>\<open>box_area\<close> (lines 55-57), for one column of the transposed tensor.\<close>

definition box_area :: "box \<Rightarrow> real" where
  "box_area b = (case b of (x1, y1, x2, y2) \<Rightarrow> (x2 - x1) * (y2 - y1))"

text \<open>\<^verbatim>\<open>.clamp(0)\<close>.\<close>

definition clamp0 :: "real \<Rightarrow> real" where
  "clamp0 v = max v 0"

text \<open>Line 63 for one pair of rows:
  \<^verbatim>\<open>(min(box1[2:], box2[2:]) - max(box1[:2], box2[:2])).clamp(0).prod()\<close>.\<close>

definition box_inter :: "box \<Rightarrow> box \<Rightarrow> real" where
  "box_inter a b = (case a of (ax1, ay1, ax2, ay2) \<Rightarrow> case b of (bx1, by1, bx2, by2) \<Rightarrow>
     clamp0 (min ax2 bx2 - max ax1 bx1) * clamp0 (min ay2 by2 - max ay1 by1))"

text \<open>Line 64 for one pair of rows: \<^verbatim>\<open>inter / (area1 + area2 - inter)\<close>. A divisor 0
  comes with a numerator 0 (\<open>union_zero_inter_zero\<close> below), and the float quotient is then
  NaN: the value \<open>None\<close>.\<close>

definition pair_iou :: "box \<Rightarrow> box \<Rightarrow> real option" where
  "pair_iou a b =
     (let inter = box_inter a b;
          union = box_area a + box_area b - inter
      in if union = 0 then None else Some (inter / union))"

text \<open>A float comparison \<^verbatim>\<open>v > t\<close>: false for NaN.\<close>

definition exceeds :: "real option \<Rightarrow> real \<Rightarrow> bool" where
  "exceeds v t = (case v of None \<Rightarrow> False | Some r \<Rightarrow> r > t)"

text \<open>\<^verbatim>\<open>box_iou(box1, box2)\<close> (lines 42-64): the \<open>N \<times> M\<close> matrix of pairwise values.\<close>

definition box_iou :: "box list \<Rightarrow> box list \<Rightarrow> real option list list" where
  "box_iou box1 box2 = map (\<lambda>a. map (\<lambda>b. pair_iou a b) box2) box1"


text \<open>\<^verbatim>\<open>xywh2xyxy\<close> (lines 67-74) on the rows of an \<open>n \<times> 4\<close> tensor; the result is a
  fresh tensor (\<^verbatim>\<open>x.clone()\<close>).\<close>

definition xywh2xyxy :: "box list \<Rightarrow> box list" where
  "xywh2xyxy x = map (\<lambda>(cx, cy, w, h). (cx - w / 2, cy - h / 2, cx + w / 2, cy + h / 2)) x"

section \<open>Non-maximum suppression\<close>

subsection \<open>Constants of the function body (lines 93-98)\<close>

definition max_wh :: real where
  "max_wh = 4096"

definition max_nms :: nat where
  "max_nms = 30000"

text \<open>\<^verbatim>\<open>merge = False\<close> is a local constant, so the merge branch (lines 154-160) is never
  executed; it is not part of the model. \<^verbatim>\<open>time_limit\<close>, \<^verbatim>\<open>min_wh\<close> and
  \<^verbatim>\<open>redundant\<close> are not read on any executed path.\<close>

subsection \<open>The suppression routine\<close>

text \<open>Modelled from the spec: \<^verbatim>\<open>torchvision.ops.nms\<close> is a library routine, not part of
  \<^verbatim>\<open>src/\<close>. The spec (4.3 step 8) gives its loop: repeatedly select the highest-scoring
  remaining candidate, emit it, then remove every other remaining candidate whose IoU with
  the selected box exceeds the threshold. \<open>ks\<close> lists the remaining candidates by
  decreasing score. The overlap is the one of \<open>pair_iou\<close>, compared as floats are.\<close>

fun nms_loop :: "box list \<Rightarrow> real \<Rightarrow> nat list \<Rightarrow> nat list" where
  "nms_loop boxes iou_threshold [] = []"
| "nms_loop boxes iou_threshold (k # ks) =
     k # nms_loop boxes iou_threshold
           (filter (\<lambda>m. \<not> exceeds (pair_iou (boxes ! k) (boxes ! m)) iou_threshold) ks)"

text \<open>Modelled from the spec: \<^verbatim>\<open>torchvision.ops.nms(boxes, scores, iou_threshold)\<close>, the
  loop above from the candidates sorted by confidence descending (spec 4.3 step 8). The
  result is the list of kept indices, in decreasing order of score; equal scores keep
  their original order.\<close>

definition nms :: "box list \<Rightarrow> real list \<Rightarrow> real \<Rightarrow> nat list" where
  "nms boxes scores iou_threshold =
     nms_loop boxes iou_threshold (sort_key (\<lambda>k. - (scores ! k)) [0..<length boxes])"

subsection \<open>The stages of the loop body of \<^verbatim>\<open>non_max_suppression\<close>\<close>

text \<open>Boolean-mask indexing \<^verbatim>\<open>x[mask]\<close>: the rows whose mask entry is true.\<close>

definition mask_select :: "'a list \<Rightarrow> bool list \<Rightarrow> 'a list" where
  "mask_select x msk = map fst (filter snd (zip x msk))"

text \<open>Line 86: \<^verbatim>\<open>xc = prediction[..., 4] > conf_thres\<close>, one mask per image.\<close>

definition candidates_mask :: "real \<Rightarrow> real list list list \<Rightarrow> bool list list" where
  "candidates_mask conf_thres d = map (map (\<lambda>r. r ! 4 > conf_thres)) d"

text \<open>\<^verbatim>\<open>.long()\<close> of a float: truncation towards zero.\<close>

definition to_long :: "real \<Rightarrow> int" where
  "to_long v = (if 0 \<le> v then \<lfloor>v\<rfloor> else \<lceil>v\<rceil>)"

text \<open>Lines 109-112 for one label row: a zero row of length \<open>nc + 5\<close> with the box in
  columns 0-3, 1.0 in column 4 and 1.0 in column \<^verbatim>\<open>l[0].long() + 5\<close>. A negative column
  index counts from the end; an index outside the row raises.\<close>

definition label_row :: "nat \<Rightarrow> label \<Rightarrow> error + real list" where
  "label_row nc l = (case l of (c, x, y, w, h) \<Rightarrow>
     (let v = [x, y, w, h, 1] @ replicate nc 0;
          n = int (length v);
          k = to_long c + 5
      in if k < - n \<or> n \<le> k then Inl IndexError
         else Inr (v[nat (if k < 0 then k + n else k) := 1])))"

fun label_rows :: "nat \<Rightarrow> label list \<Rightarrow> error + real list list" where
  "label_rows nc [] = Inr []"
| "label_rows nc (l # ls) =
     (case label_row nc l of
        Inl e \<Rightarrow> Inl e
      | Inr v \<Rightarrow> (case label_rows nc ls of Inl e \<Rightarrow> Inl e | Inr vs \<Rightarrow> Inr (v # vs)))"

text \<open>Line 107: \<^verbatim>\<open>labels and len(labels[xi])\<close>. An empty \<open>labels\<close> is falsy and
  \<^verbatim>\<open>labels[xi]\<close> is not evaluated; otherwise \<^verbatim>\<open>labels[xi]\<close> raises beyond the end.\<close>

definition has_labels :: "label list list \<Rightarrow> nat \<Rightarrow> error + bool" where
  "has_labels labels xi =
     (if labels = [] then Inr False
      else if length labels \<le> xi then Inl IndexError
      else Inr (labels ! xi \<noteq> []))"

text \<open>Lines 107-113: \<^verbatim>\<open>x = torch.cat((x, v), 0)\<close> when the image has apriori labels.\<close>

definition cat_labels :: "nat \<Rightarrow> label list list \<Rightarrow> nat \<Rightarrow> real list list \<Rightarrow> error + real list list" where
  "cat_labels nc labels xi x =
     (case has_labels labels xi of
        Inl e \<Rightarrow> Inl e
      | Inr False \<Rightarrow> Inr x
      | Inr True \<Rightarrow> (case label_rows nc (labels ! xi) of Inl e \<Rightarrow> Inl e | Inr v \<Rightarrow> Inr (x @ v)))"

text \<open>Line 120: \<^verbatim>\<open>x[:, 5:] *= x[:, 4:5]\<close>.\<close>

definition compute_conf :: "real list list \<Rightarrow> real list list" where
  "compute_conf x = map (\<lambda>r. take 5 r @ map (\<lambda>s. s * r ! 4) (drop 5 r)) x"

text \<open>\<^verbatim>\<open>x[:, :4]\<close> as rows of four.\<close>

definition box_columns :: "real list list \<Rightarrow> box list" where
  "box_columns x = map (\<lambda>r. (r ! 0, r ! 1, r ! 2, r ! 3)) x"

text \<open>\<^verbatim>\<open>t.max(0)\<close> of a vector: the maximum and the index of its first occurrence.
  On an empty vector torch raises.\<close>

fun max_from :: "real \<times> nat \<Rightarrow> nat \<Rightarrow> real list \<Rightarrow> real \<times> nat" where
  "max_from best k [] = best"
| "max_from best k (c # cs) = max_from (if fst best < c then (c, k) else best) (Suc k) cs"

definition row_max :: "real list \<Rightarrow> error + real \<times> nat" where
  "row_max cs = (case cs of [] \<Rightarrow> Inl RuntimeError | c # cs' \<Rightarrow> Inr (max_from (c, 0) 1 cs'))"

text \<open>Lines 130-131, the best class only: \<^verbatim>\<open>conf, j = x[:, 5:].max(1, keepdim=True)\<close> and
  the rows with \<^verbatim>\<open>conf > conf_thres\<close>.\<close>

fun best_class :: "real \<Rightarrow> (box \<times> real list) list \<Rightarrow> error + detection list" where
  "best_class conf_thres [] = Inr []"
| "best_class conf_thres ((b, r) # rest) =
     (case row_max (drop 5 r) of
        Inl e \<Rightarrow> Inl e
      | Inr (c, j) \<Rightarrow>
          (case best_class conf_thres rest of
             Inl e \<Rightarrow> Inl e
           | Inr ds \<Rightarrow> Inr ((if c > conf_thres then [\<lparr>xyxy = b, conf = c, cls = j\<rparr>] else []) @ ds)))"

text \<open>Lines 127-128, multi-label: \<^verbatim>\<open>(x[:, 5:] > conf_thres).nonzero()\<close> lists the pairs
  \<open>(i, j)\<close> row by row, and each pair gives the row \<open>(box[i], x[i, j + 5], j)\<close>.\<close>

definition multi_class :: "nat \<Rightarrow> real \<Rightarrow> (box \<times> real list) list \<Rightarrow> detection list" where
  "multi_class nc conf_thres bx =
     concat (map (\<lambda>(b, r). map (\<lambda>j. \<lparr>xyxy = b, conf = r ! (j + 5), cls = j\<rparr>)
                                (filter (\<lambda>j. r ! (j + 5) > conf_thres) [0..<nc])) bx)"

text \<open>Lines 123-131: the detections matrix.\<close>

definition detections_matrix :: "nat \<Rightarrow> bool \<Rightarrow> real \<Rightarrow> real list list \<Rightarrow> error + detection list" where
  "detections_matrix nc multi_label conf_thres x =
     (let box = xywh2xyxy (box_columns x)
      in if multi_label then Inr (multi_class nc conf_thres (zip box x))
         else best_class conf_thres (zip box x))"

text \<open>Lines 134-135: the class allowlist, when one is given.\<close>

definition filter_by_class :: "int list option \<Rightarrow> detection list \<Rightarrow> detection list" where
  "filter_by_class classes x =
     (case classes of None \<Rightarrow> x | Some cs \<Rightarrow> filter (\<lambda>d. int (cls d) \<in> set cs) x)"

text \<open>Lines 145-146: beyond \<open>max_nms\<close> boxes, the \<open>max_nms\<close> of highest confidence, sorted
  by confidence descending.\<close>

definition excess_boxes :: "detection list \<Rightarrow> detection list" where
  "excess_boxes x =
     (if length x > max_nms then take max_nms (sort_key (\<lambda>d. - conf d) x) else x)"

text \<open>A Python slice \<^verbatim>\<open>i[:m]\<close>: a negative \<open>m\<close> counts from the end.\<close>

definition py_prefix :: "'a list \<Rightarrow> int \<Rightarrow> 'a list" where
  "py_prefix xs m = (if 0 \<le> m then take (nat m) xs else take (length xs - nat (- m)) xs)"

text \<open>Line 149 and 150: \<^verbatim>\<open>c = x[:, 5:6] * (0 if agnostic else max_wh)\<close> and
  \<^verbatim>\<open>boxes = x[:, :4] + c\<close>, the class offset added to all four coordinates of a copy.\<close>

definition offset_box :: "bool \<Rightarrow> detection \<Rightarrow> box" where
  "offset_box agnostic d =
     (let c = real (cls d) * (if agnostic then 0 else max_wh)
      in case xyxy d of (x1, y1, x2, y2) \<Rightarrow> (x1 + c, y1 + c, x2 + c, y2 + c))"

text \<open>Lines 149-153: the indices kept by the suppression, at most \<open>max_det\<close> of them.\<close>

definition kept_indices :: "bool \<Rightarrow> real \<Rightarrow> int \<Rightarrow> detection list \<Rightarrow> nat list" where
  "kept_indices agnostic iou_thres max_det x =
     (let boxes = map (offset_box agnostic) x;
          scores = map conf x;
          i = nms boxes scores iou_thres
      in if int (length i) > max_det then py_prefix i max_det else i)"

text \<open>Line 162: \<^verbatim>\<open>output[xi] = x[i]\<close>, rows of the matrix \<open>x\<close> itself. The indices come
  from \<open>nms\<close> and are below the number of rows.\<close>

definition batched_nms :: "bool \<Rightarrow> real \<Rightarrow> int \<Rightarrow> detection list \<Rightarrow> detection list" where
  "batched_nms agnostic iou_thres max_det x = map (\<lambda>k. x ! k) (kept_indices agnostic iou_thres max_det x)"

text \<open>Lines 119-162 for one image, from the rows that passed the objectness gate and
  the apriori labels. An empty matrix ends the iteration (\<^verbatim>\<open>continue\<close>) and leaves the
  initial empty tensor in \<open>output[xi]\<close>.\<close>

definition process_rows :: "nat \<Rightarrow> real \<Rightarrow> real \<Rightarrow> int list option \<Rightarrow> bool \<Rightarrow> bool \<Rightarrow> int \<Rightarrow>
    real list list \<Rightarrow> error + detection list" where
  "process_rows nc conf_thres iou_thres classes agnostic multi_label max_det x =
     (case detections_matrix nc multi_label conf_thres x of
        Inl e \<Rightarrow> Inl e
      | Inr y \<Rightarrow>
          (let y = filter_by_class classes y
           in if y = [] then Inr []
              else Inr (batched_nms agnostic iou_thres max_det (excess_boxes y))))"

text \<open>Lines 104-162: the loop body for image \<open>xi\<close> with rows \<open>x\<close> and mask \<open>xc[xi]\<close>.\<close>

definition nms_image :: "nat \<Rightarrow> real \<Rightarrow> real \<Rightarrow> int list option \<Rightarrow> bool \<Rightarrow> bool \<Rightarrow> label list list \<Rightarrow>
    int \<Rightarrow> nat \<Rightarrow> bool list \<Rightarrow> real list list \<Rightarrow> error + detection list" where
  "nms_image nc conf_thres iou_thres classes agnostic multi_label labels max_det xi msk x =
     (case cat_labels nc labels xi (mask_select x msk) of
        Inl e \<Rightarrow> Inl e
      | Inr x1 \<Rightarrow>
          if x1 = [] then Inr []
          else process_rows nc conf_thres iou_thres classes agnostic multi_label max_det
                 (compute_conf x1))"

text \<open>The loop of line 101 from image \<open>xi\<close> on; the first exception ends the call.\<close>

fun nms_images :: "nat \<Rightarrow> real \<Rightarrow> real \<Rightarrow> int list option \<Rightarrow> bool \<Rightarrow> bool \<Rightarrow> label list list \<Rightarrow>
    int \<Rightarrow> nat \<Rightarrow> bool list list \<Rightarrow> real list list list \<Rightarrow> error + detection list list" where
  "nms_images nc conf_thres iou_thres classes agnostic multi_label labels max_det xi xc [] = Inr []"
| "nms_images nc conf_thres iou_thres classes agnostic multi_label labels max_det xi xc (x # rest) =
     (case nms_image nc conf_thres iou_thres classes agnostic multi_label labels max_det xi (xc ! xi) x of
        Inl e \<Rightarrow> Inl e
      | Inr out \<Rightarrow>
          (case nms_images nc conf_thres iou_thres classes agnostic multi_label labels max_det (Suc xi) xc rest of
             Inl e \<Rightarrow> Inl e
           | Inr outs \<Rightarrow> Inr (out # outs)))"

text \<open>\<^verbatim>\<open>non_max_suppression\<close> (lines 77-164). \<^verbatim>\<open>prediction[..., 4]\<close> on line 86 raises
  when the last dimension has fewer than five columns, before the assertions.\<close>

definition non_max_suppression :: "tensor3 \<Rightarrow> real \<Rightarrow> real \<Rightarrow> int list option \<Rightarrow> bool \<Rightarrow> bool \<Rightarrow>
    label list list \<Rightarrow> int \<Rightarrow> error + detection list list" where
  "non_max_suppression prediction conf_thres iou_thres classes agnostic multi_label labels max_det =
     (if shape2 prediction < 5 then Inl IndexError
      else let nc = shape2 prediction - 5;
               xc = candidates_mask conf_thres (data prediction)
           in if \<not> (0 \<le> conf_thres \<and> conf_thres \<le> 1) then Inl AssertionError
              else if \<not> (0 \<le> iou_thres \<and> iou_thres \<le> 1) then Inl AssertionError
              else nms_images nc conf_thres iou_thres classes agnostic (multi_label \<and> nc > 1)
                     labels max_det 0 xc (data prediction))"

section \<open>Tensors in a store\<close>

text \<open>
  For the effect of \<^verbatim>\<open>non_max_suppression\<close> on its argument, tensors live in a store: a
  list of buffers, the address of a buffer being its position. A two-dimensional tensor is
  a handle: either a buffer of its own, or image \<open>i\<close> of a three-dimensional buffer, a view
  that shares the buffer (what iterating over \<^verbatim>\<open>prediction\<close> yields). Reading and
  writing go through the handle; a new tensor takes the next free address.
\<close>

datatype buffer = Buf2 "real list list" | Buf3 tensor3

type_synonym heap = "buffer list"

datatype tensor2 = Owned nat | Slice nat nat

fun rows_of :: "heap \<Rightarrow> tensor2 \<Rightarrow> real list list" where
  "rows_of h (Owned a) = (case h ! a of Buf2 m \<Rightarrow> m | Buf3 t \<Rightarrow> [])"
| "rows_of h (Slice a i) = (case h ! a of Buf3 t \<Rightarrow> data t ! i | Buf2 m \<Rightarrow> [])"

fun assign_rows :: "heap \<Rightarrow> tensor2 \<Rightarrow> real list list \<Rightarrow> heap" where
  "assign_rows h (Owned a) m = h[a := Buf2 m]"
| "assign_rows h (Slice a i) m =
     (case h ! a of Buf3 t \<Rightarrow> h[a := Buf3 (t\<lparr>data := (data t)[i := m]\<rparr>)] | Buf2 m' \<Rightarrow> h)"

definition new_tensor :: "heap \<Rightarrow> real list list \<Rightarrow> tensor2 \<times> heap" where
  "new_tensor h m = (Owned (length h), h @ [Buf2 m])"

text \<open>The loop body (lines 104-162) on the store. Line 104, \<^verbatim>\<open>x = x[xc[xi]]\<close>, indexes with
  a boolean mask, which in torch returns a new tensor; \<^verbatim>\<open>torch.zeros\<close> and \<^verbatim>\<open>torch.cat\<close>
  (lines 109-113) return new tensors; line 120, \<^verbatim>\<open>x[:, 5:] *= x[:, 4:5]\<close>, writes in place
  through the handle \<open>x\<close>. From line 123 on nothing is written (the merge branch is dead),
  so the rest is \<open>process_rows\<close> on the rows read.\<close>

definition nms_image_heap :: "nat \<Rightarrow> real \<Rightarrow> real \<Rightarrow> int list option \<Rightarrow> bool \<Rightarrow> bool \<Rightarrow>
    label list list \<Rightarrow> int \<Rightarrow> nat \<Rightarrow> bool list \<Rightarrow> heap \<Rightarrow> tensor2 \<Rightarrow> (error + detection list) \<times> heap" where
  "nms_image_heap nc conf_thres iou_thres classes agnostic multi_label labels max_det xi msk h x =
     (case new_tensor h (mask_select (rows_of h x) msk) of (x, h) \<Rightarrow>
        (case has_labels labels xi of
           Inl e \<Rightarrow> (Inl e, h)
         | Inr b \<Rightarrow>
             (case (if b
                    then (case label_rows nc (labels ! xi) of
                            Inl e \<Rightarrow> Inl e
                          | Inr v \<Rightarrow>
                              (case new_tensor h v of (v, h) \<Rightarrow>
                                 Inr (new_tensor h (rows_of h x @ rows_of h v))))
                    else Inr (x, h)) of
                Inl e \<Rightarrow> (Inl e, h)
              | Inr (x, h) \<Rightarrow>
                  if rows_of h x = [] then (Inr [], h)
                  else (case assign_rows h x (compute_conf (rows_of h x)) of h \<Rightarrow>
                          (process_rows nc conf_thres iou_thres classes agnostic multi_label max_det
                             (rows_of h x), h)))))"

text \<open>The loop of line 101 over the views \<open>Slice prediction xi\<close> of the \<open>n\<close> remaining images.\<close>

fun nms_images_heap :: "nat \<Rightarrow> real \<Rightarrow> real \<Rightarrow> int list option \<Rightarrow> bool \<Rightarrow> bool \<Rightarrow> label list list \<Rightarrow>
    int \<Rightarrow> nat \<Rightarrow> bool list list \<Rightarrow> nat \<Rightarrow> nat \<Rightarrow> heap \<Rightarrow> (error + detection list list) \<times> heap" where
  "nms_images_heap nc conf_thres iou_thres classes agnostic multi_label labels max_det xi xc prediction 0 h
     = (Inr [], h)"
| "nms_images_heap nc conf_thres iou_thres classes agnostic multi_label labels max_det xi xc prediction (Suc n) h =
     (case nms_image_heap nc conf_thres iou_thres classes agnostic multi_label labels max_det xi (xc ! xi) h
             (Slice prediction xi) of
        (Inl e, h) \<Rightarrow> (Inl e, h)
      | (Inr out, h) \<Rightarrow>
          (case nms_images_heap nc conf_thres iou_thres classes agnostic multi_label labels max_det
                  (Suc xi) xc prediction n h of
             (Inl e, h) \<Rightarrow> (Inl e, h)
           | (Inr outs, h) \<Rightarrow> (Inr (out # outs), h)))"

text \<open>\<^verbatim>\<open>non_max_suppression\<close> on the store, \<open>prediction\<close> being the address of the argument.
  A tensor of fewer than three dimensions has no \<^verbatim>\<open>shape[2]\<close>.\<close>

definition non_max_suppression_heap :: "heap \<Rightarrow> nat \<Rightarrow> real \<Rightarrow> real \<Rightarrow> int list option \<Rightarrow> bool \<Rightarrow> bool \<Rightarrow>
    label list list \<Rightarrow> int \<Rightarrow> (error + detection list list) \<times> heap" where
  "non_max_suppression_heap h prediction conf_thres iou_thres classes agnostic multi_label labels max_det =
     (case h ! prediction of
        Buf2 m \<Rightarrow> (Inl IndexError, h)
      | Buf3 p \<Rightarrow>
          if shape2 p < 5 then (Inl IndexError, h)
          else let nc = shape2 p - 5;
                   xc = candidates_mask conf_thres (data p)
               in if \<not> (0 \<le> conf_thres \<and> conf_thres \<le> 1) then (Inl AssertionError, h)
                  else if \<not> (0 \<le> iou_thres \<and> iou_thres \<le> 1) then (Inl AssertionError, h)
                  else nms_images_heap nc conf_thres iou_thres classes agnostic (multi_label \<and> nc > 1)
                         labels max_det 0 xc prediction (length (data p)) h)"

section \<open>Letterbox\<close>

text \<open>An image as far as \<^verbatim>\<open>letterbox\<close> reads it: \<^verbatim>\<open>im.shape[:2]\<close>, height and width.
  The pixels, and so the interpolation of \<^verbatim>\<open>cv2.resize\<close> and the border colour, are not
  modelled.\<close>

record image =
  im_height :: int
  im_width :: int

text \<open>\<^verbatim>\<open>new_shape\<close>: an int, or a pair \<open>(height, width)\<close>.\<close>

datatype shape_arg = Square int | Rect int int

text \<open>Lines 12-13.\<close>

definition target_shape :: "shape_arg \<Rightarrow> int \<times> int" where
  "target_shape new_shape = (case new_shape of Square n \<Rightarrow> (n, n) | Rect h w \<Rightarrow> (h, w))"

text \<open>Python's \<^verbatim>\<open>round\<close> of a float to an int: to the nearest integer, a tie to the even
  one.\<close>

definition py_round :: "real \<Rightarrow> int" where
  "py_round v = (let f = \<lfloor>v\<rfloor>; d = v - of_int f
                 in if d < 1 / 2 then f else if 1 / 2 < d then f + 1
                    else if even f then f else f + 1)"

text \<open>\<^verbatim>\<open>np.mod\<close> on integers: the sign of the divisor, and 0 for a divisor 0.\<close>

definition np_mod :: "int \<Rightarrow> int \<Rightarrow> int" where
  "np_mod a b = (if b = 0 then 0 else a mod b)"

text \<open>Modelled from the spec: \<^verbatim>\<open>cv2.resize\<close> is a library routine, not part of
  \<^verbatim>\<open>src/\<close>; the spec (4.1) has the image resized to the unpadded target size. The size is
  given as \<open>(width, height)\<close>, and an empty size is rejected.\<close>

definition cv2_resize :: "image \<Rightarrow> int \<times> int \<Rightarrow> error + image" where
  "cv2_resize im dsize =
     (if fst dsize \<le> 0 \<or> snd dsize \<le> 0 then Inl CvError
      else Inr \<lparr>im_height = snd dsize, im_width = fst dsize\<rparr>)"

text \<open>Modelled from the spec: \<^verbatim>\<open>cv2.copyMakeBorder\<close> is a library routine, not part of
  \<^verbatim>\<open>src/\<close>; the spec (4.1) has a border of the given extents added on the four sides.
  A negative extent is rejected.\<close>

definition cv2_copyMakeBorder :: "image \<Rightarrow> int \<Rightarrow> int \<Rightarrow> int \<Rightarrow> int \<Rightarrow> error + image" where
  "cv2_copyMakeBorder im tp bt lf rt =
     (if tp < 0 \<or> bt < 0 \<or> lf < 0 \<or> rt < 0 then Inl CvError
      else Inr \<lparr>im_height = im_height im + tp + bt, im_width = im_width im + lf + rt\<rparr>)"

text \<open>Lines 16-18: the scale ratio (new / old).\<close>

definition scale_ratio :: "image \<Rightarrow> int \<times> int \<Rightarrow> bool \<Rightarrow> real" where
  "scale_ratio im new_shape scaleup =
     (let r = min (real_of_int (fst new_shape) / real_of_int (im_height im))
                  (real_of_int (snd new_shape) / real_of_int (im_width im))
      in if \<not> scaleup then min r 1 else r)"

text \<open>Line 22: \<^verbatim>\<open>new_unpad\<close>, as \<open>(width, height)\<close>.\<close>

definition unpad_size :: "image \<Rightarrow> real \<Rightarrow> int \<times> int" where
  "unpad_size im r = (py_round (real_of_int (im_width im) * r), py_round (real_of_int (im_height im) * r))"

text \<open>Lines 36-37: the two borders of an axis from half its padding.\<close>

definition borders :: "real \<Rightarrow> int \<times> int" where
  "borders d = (py_round (d - 1 / 10), py_round (d + 1 / 10))"

text \<open>Lines 21-32: \<^verbatim>\<open>new_unpad\<close>, the padding \<open>(dw, dh)\<close> of the two axes before it is
  halved, and \<^verbatim>\<open>ratio\<close>.\<close>

definition letterbox_padding :: "image \<Rightarrow> int \<times> int \<Rightarrow> bool \<Rightarrow> bool \<Rightarrow> bool \<Rightarrow> int \<Rightarrow>
    (int \<times> int) \<times> (int \<times> int) \<times> (real \<times> real)" where
  "letterbox_padding im new_shape auto scaleFill scaleup stride =
     (let r = scale_ratio im new_shape scaleup;
          new_unpad = unpad_size im r;
          dw = snd new_shape - fst new_unpad;
          dh = fst new_shape - snd new_unpad
      in if auto then (new_unpad, (np_mod dw stride, np_mod dh stride), (r, r))
         else if scaleFill then
           ((snd new_shape, fst new_shape), (0, 0),
            (real_of_int (snd new_shape) / real_of_int (im_width im),
             real_of_int (fst new_shape) / real_of_int (im_height im)))
         else (new_unpad, (dw, dh), (r, r)))"

text \<open>\<^verbatim>\<open>letterbox\<close> (lines 9-39). The division of line 16 raises for a dimension 0.
  The result is the image, \<^verbatim>\<open>ratio\<close> and the halved padding \<open>(dw, dh)\<close>.\<close>

definition letterbox :: "image \<Rightarrow> shape_arg \<Rightarrow> bool \<Rightarrow> bool \<Rightarrow> bool \<Rightarrow> int \<Rightarrow>
    error + image \<times> (real \<times> real) \<times> (real \<times> real)" where
  "letterbox im new_shape auto scaleFill scaleup stride =
     (if im_height im = 0 \<or> im_width im = 0 then Inl ZeroDivisionError
      else
        case letterbox_padding im (target_shape new_shape) auto scaleFill scaleup stride of
          (new_unpad, (pw, ph), ratio) \<Rightarrow>
            (let dw = real_of_int pw / 2;
                 dh = real_of_int ph / 2
             in case (if (im_width im, im_height im) \<noteq> new_unpad then cv2_resize im new_unpad
                      else Inr im) of
                  Inl e \<Rightarrow> Inl e
                | Inr im1 \<Rightarrow>
                    (case cv2_copyMakeBorder im1 (fst (borders dh)) (snd (borders dh))
                            (fst (borders dw)) (snd (borders dw)) of
                       Inl e \<Rightarrow> Inl e
                     | Inr im2 \<Rightarrow> Inr (im2, ratio, (dw, dh)))))"

section \<open>Auxiliary notions of the claims\<close>





section \<open>Example inputs\<close>

text \<open>One image with four anchors and two classes. The second anchor overlaps the first
  (IoU 9/11) and has the same best class; the fourth fails the objectness gate.\<close>

definition example_prediction :: tensor3 where
  "example_prediction = \<lparr>shape2 = 7, data =
     [[[10, 10, 10, 10, 9/10, 8/10, 1/10],
       [11, 10, 10, 10, 8/10, 9/10, 0],
       [50, 50, 10, 10, 1/2, 9/10, 1/10],
       [0, 0, 1, 1, 1/10, 1, 1]]]\<rparr>"

definition example_output :: "detection list list" where
  "example_output = [[\<lparr>xyxy = (5, 5, 15, 15), conf = 18/25, cls = 0\<rparr>,
                      \<lparr>xyxy = (45, 45, 55, 55), conf = 9/20, cls = 0\<rparr>]]"



section \<open>Properties of the box geometry\<close>

lemma box_inter_commute: "box_inter a b = box_inter b a"
  by (cases a, cases b) (simp add: box_inter_def min.commute max.commute)

lemma box_inter_nonneg: "0 \<le> box_inter a b"
  by (cases a, cases b) (simp add: box_inter_def clamp0_def)


lemma box_inter_pos_le_area:
  assumes "0 < box_inter a b"
  shows "box_inter a b \<le> box_area a"
proof -
  obtain ax1 ay1 ax2 ay2 where a: "a = (ax1, ay1, ax2, ay2)" by (cases a) auto
  obtain bx1 by1 bx2 by2 where b: "b = (bx1, by1, bx2, by2)" by (cases b) auto
  define w where "w = min ax2 bx2 - max ax1 bx1"
  define h where "h = min ay2 by2 - max ay1 by1"
  have i: "box_inter a b = max w 0 * max h 0"
    by (simp add: a b box_inter_def clamp0_def w_def h_def)
  have w: "0 < w"
  proof (rule ccontr)
    assume "\<not> 0 < w"
    then have "max w 0 = 0" by simp
    with assms i show False by simp
  qed
  have h: "0 < h"
  proof (rule ccontr)
    assume "\<not> 0 < h"
    then have "max h 0 = 0" by simp
    with assms i show False by simp
  qed
  have "w \<le> ax2 - ax1" "h \<le> ay2 - ay1" by (auto simp: w_def h_def)
  with w h have "w * h \<le> (ax2 - ax1) * (ay2 - ay1)"
    by (intro mult_mono) auto
  moreover have "box_inter a b = w * h" using w h i by simp
  ultimately show ?thesis
    by (simp add: a box_area_def)
qed

lemma union_ge_inter:
  assumes "0 < box_inter a b"
  shows "box_inter a b \<le> box_area a + box_area b - box_inter a b"
    and "0 < box_area a + box_area b - box_inter a b"
proof -
  have 1: "box_inter a b \<le> box_area a" using assms by (rule box_inter_pos_le_area)
  have 2: "box_inter a b \<le> box_area b"
    using assms box_inter_pos_le_area [of b a] by (simp add: box_inter_commute)
  from 1 2 show "box_inter a b \<le> box_area a + box_area b - box_inter a b" by simp
  with assms show "0 < box_area a + box_area b - box_inter a b" by simp
qed

lemma union_zero_inter_zero:
  "box_area a + box_area b - box_inter a b = 0 \<Longrightarrow> box_inter a b = 0"
  using union_ge_inter(2) [of a b] box_inter_nonneg [of a b] by (cases "0 < box_inter a b") auto









lemma box_iou_shape:
  "length (box_iou box1 box2) = length box1 \<and> (\<forall>row \<in> set (box_iou box1 box2). length row = length box2)"
  by (auto simp: box_iou_def)






section \<open>Properties of the suppression routine\<close>

lemma set_nms_loop: "set (nms_loop bs t ks) \<subseteq> set ks"
  by (induction bs t ks rule: nms_loop.induct) auto


lemma sorted_wrt_nms_loop: "sorted_wrt P ks \<Longrightarrow> sorted_wrt P (nms_loop bs t ks)"
proof (induction bs t ks rule: nms_loop.induct)
  case (1 bs t)
  then show ?case by simp
next
  case (2 bs t k ks)
  then show ?case using set_nms_loop [of bs t "filter (\<lambda>m. \<not> exceeds (pair_iou (bs ! k) (bs ! m)) t) ks"]
    by (auto simp: sorted_wrt_filter)
qed




lemma set_score_order: "set (sort_key (\<lambda>k. - (sc ! k)) [0..<n]) = {0..<n}"
  by simp

lemma sorted_score_order:
  "sorted_wrt (\<lambda>k m. sc ! k \<ge> sc ! m) (sort_key (\<lambda>k. - ((sc :: real list) ! k)) [0..<n])"
proof -
  have "sorted (map (\<lambda>k. - (sc ! k)) (sort_key (\<lambda>k. - (sc ! k)) [0..<n]))"
    by (rule sorted_sort_key)
  then show ?thesis by (simp add: sorted_map)
qed

lemma set_nms: "set (nms bs sc t) \<subseteq> {0..<length bs}"
  using set_nms_loop [of bs t "sort_key (\<lambda>k. - (sc ! k)) [0..<length bs]"]
  by (simp add: nms_def)


lemma sorted_nms: "sorted_wrt (\<lambda>k m. sc ! k \<ge> sc ! m) (nms bs sc t)"
  by (simp add: nms_def sorted_wrt_nms_loop sorted_score_order)



lemma py_prefix_take: "\<exists>n. py_prefix xs m = take n xs"
  by (auto simp: py_prefix_def)

lemma length_py_prefix: "0 \<le> m \<Longrightarrow> int (length (py_prefix xs m)) \<le> m"
  by (simp add: py_prefix_def)

lemma kept_indices_take:
  "\<exists>n. kept_indices agnostic iou_thres max_det x
        = take n (nms (map (offset_box agnostic) x) (map conf x) iou_thres)"
proof (cases "int (length (nms (map (offset_box agnostic) x) (map conf x) iou_thres)) > max_det")
  case True
  then show ?thesis
    using py_prefix_take [of "nms (map (offset_box agnostic) x) (map conf x) iou_thres" max_det]
    by (simp add: kept_indices_def Let_def)
next
  case False
  then have "kept_indices agnostic iou_thres max_det x
      = take (length (nms (map (offset_box agnostic) x) (map conf x) iou_thres))
          (nms (map (offset_box agnostic) x) (map conf x) iou_thres)"
    by (simp add: kept_indices_def Let_def)
  then show ?thesis by blast
qed


lemma length_kept_indices:
  "0 \<le> max_det \<Longrightarrow> int (length (kept_indices agnostic iou_thres max_det x)) \<le> max_det"
  by (simp add: kept_indices_def Let_def length_py_prefix)

lemma sorted_wrt_take: "sorted_wrt P xs \<Longrightarrow> sorted_wrt P (take n xs)"
  by (metis append_take_drop_id sorted_wrt_append)

lemma sorted_kept_indices:
  "sorted_wrt (\<lambda>k m. conf (x ! k) \<ge> conf (x ! m)) (kept_indices agnostic iou_thres max_det x)"
proof -
  obtain n where k: "kept_indices agnostic iou_thres max_det x
        = take n (nms (map (offset_box agnostic) x) (map conf x) iou_thres)"
    using kept_indices_take by blast
  let ?i = "nms (map (offset_box agnostic) x) (map conf x) iou_thres"
  have r: "k < length x" if "k \<in> set ?i" for k
    using that set_nms [of "map (offset_box agnostic) x" "map conf x" iou_thres] by auto
  have "sorted_wrt (\<lambda>k m. map conf x ! k \<ge> map conf x ! m) ?i" by (rule sorted_nms)
  then have "sorted_wrt (\<lambda>k m. conf (x ! k) \<ge> conf (x ! m)) ?i"
    by (rule sorted_wrt_mono_rel [rotated]) (simp add: r)
  then show ?thesis by (simp add: k sorted_wrt_take)
qed



section \<open>Properties of the batched suppression of one image\<close>


lemma length_batched_nms:
  "0 \<le> max_det \<Longrightarrow> int (length (batched_nms agnostic iou_thres max_det x)) \<le> max_det"
  by (simp add: batched_nms_def length_kept_indices)

lemma sorted_batched_nms:
  "sorted_wrt (\<lambda>d e. conf d \<ge> conf e) (batched_nms agnostic iou_thres max_det x)"
  using sorted_kept_indices [where agnostic = agnostic and x = x and iou_thres = iou_thres and max_det = max_det]
  by (simp add: batched_nms_def sorted_wrt_map)


section \<open>Claims on the box geometry\<close>



section \<open>Evaluation of the example\<close>

lemmas nms_eval_simps = non_max_suppression_def candidates_mask_def nms_image_def mask_select_def
  cat_labels_def has_labels_def compute_conf_def process_rows_def detections_matrix_def
  xywh2xyxy_def box_columns_def row_max_def filter_by_class_def excess_boxes_def max_nms_def
  batched_nms_def kept_indices_def nms_def offset_box_def max_wh_def pair_iou_def exceeds_def box_inter_def
  box_area_def clamp0_def multi_class_def py_prefix_def Let_def

lemma example_eval:
  "non_max_suppression example_prediction (1/4) (45/100) None False False [] 300 = Inr example_output"
  by (simp add: example_prediction_def example_output_def nms_eval_simps upt_rec)

section \<open>From the batch to one image\<close>

lemma length_excess_boxes: "length (excess_boxes x) = min (length x) max_nms"
  by (simp add: excess_boxes_def)

lemma excess_boxes_Nil: "excess_boxes x = [] \<longleftrightarrow> x = []"
proof -
  have "length (excess_boxes x) = 0 \<longleftrightarrow> length x = 0"
    unfolding length_excess_boxes by (auto simp: max_nms_def min_def)
  then show ?thesis by simp
qed


lemma nms_images_Inr:
  "nms_images nc ct it cl ag ml lb md xi xc ds = Inr outs \<Longrightarrow>
     length outs = length ds \<and>
     (\<forall>k < length ds. nms_image nc ct it cl ag ml lb md (xi + k) (xc ! (xi + k)) (ds ! k) = Inr (outs ! k))"
proof (induction ds arbitrary: xi outs)
  case Nil
  then show ?case by simp
next
  case (Cons x rest)
  from Cons.prems obtain out outs' where
    o: "nms_image nc ct it cl ag ml lb md xi (xc ! xi) x = Inr out"
    and r: "nms_images nc ct it cl ag ml lb md (Suc xi) xc rest = Inr outs'"
    and e: "outs = out # outs'"
    by (auto split: sum.splits)
  from Cons.IH [OF r] have l: "length outs' = length rest"
    and a: "\<And>k. k < length rest \<Longrightarrow>
      nms_image nc ct it cl ag ml lb md (Suc xi + k) (xc ! (Suc xi + k)) (rest ! k) = Inr (outs' ! k)"
    by auto
  show ?case
  proof (intro conjI allI impI)
    show "length outs = length (x # rest)" using l e by simp
  next
    fix k assume "k < length (x # rest)"
    then show "nms_image nc ct it cl ag ml lb md (xi + k) (xc ! (xi + k)) ((x # rest) ! k) = Inr (outs ! k)"
      using o a [of "k - 1"] e by (cases k) auto
  qed
qed

lemma non_max_suppression_Inr:
  assumes "non_max_suppression p ct it cl ag ml lb md = Inr outs"
  shows "5 \<le> shape2 p" and "0 \<le> ct" and "ct \<le> 1" and "0 \<le> it" and "it \<le> 1"
    and "length outs = length (data p)"
    and "\<And>k. k < length (data p) \<Longrightarrow>
      nms_image (shape2 p - 5) ct it cl ag (ml \<and> shape2 p - 5 > 1) lb md k
        (candidates_mask ct (data p) ! k) (data p ! k) = Inr (outs ! k)"
proof -
  from assms show s: "5 \<le> shape2 p" and "0 \<le> ct" and "ct \<le> 1" and "0 \<le> it" and "it \<le> 1"
    by (auto simp: non_max_suppression_def Let_def split: if_splits)
  with assms have "nms_images (shape2 p - 5) ct it cl ag (ml \<and> shape2 p - 5 > 1) lb md 0
      (candidates_mask ct (data p)) (data p) = Inr outs"
    by (auto simp: non_max_suppression_def Let_def split: if_splits)
  from nms_images_Inr [OF this]
  show "length outs = length (data p)"
    and "\<And>k. k < length (data p) \<Longrightarrow>
      nms_image (shape2 p - 5) ct it cl ag (ml \<and> shape2 p - 5 > 1) lb md k
        (candidates_mask ct (data p) ! k) (data p ! k) = Inr (outs ! k)"
    by auto
qed

lemma process_rows_Inr:
  assumes "process_rows nc ct it cl ag ml md x = Inr out"
  obtains "out = []"
  | y where "detections_matrix nc ml ct x = Inr y" and "filter_by_class cl y \<noteq> []"
      and "out = batched_nms ag it md (excess_boxes (filter_by_class cl y))"
  using assms by (auto simp: process_rows_def Let_def split: sum.splits if_splits)

lemma nms_image_Inr:
  assumes "nms_image nc ct it cl ag ml lb md xi msk x = Inr out"
  obtains "out = []"
  | x1 y where "cat_labels nc lb xi (mask_select x msk) = Inr x1" and "x1 \<noteq> []"
      and "detections_matrix nc ml ct (compute_conf x1) = Inr y"
      and "filter_by_class cl y \<noteq> []"
      and "out = batched_nms ag it md (excess_boxes (filter_by_class cl y))"
proof -
  from assms obtain x1 where c: "cat_labels nc lb xi (mask_select x msk) = Inr x1"
    and r: "x1 = [] \<and> out = [] \<or> x1 \<noteq> [] \<and> process_rows nc ct it cl ag ml md (compute_conf x1) = Inr out"
    by (auto simp: nms_image_def split: sum.splits if_splits)
  from r show ?thesis
  proof
    assume "x1 = [] \<and> out = []"
    then show ?thesis using that(1) by simp
  next
    assume a: "x1 \<noteq> [] \<and> process_rows nc ct it cl ag ml md (compute_conf x1) = Inr out"
    then have "process_rows nc ct it cl ag ml md (compute_conf x1) = Inr out" by simp
    then show ?thesis
    proof (cases rule: process_rows_Inr)
      case 1
      then show ?thesis using that(1) by simp
    next
      case (2 y)
      then show ?thesis using that(2) [OF c _ 2(1) 2(2) 2(3)] a by simp
    qed
  qed
qed

text \<open>Every list the call returns for an image is empty or the batched suppression of a
  non-empty detections matrix.\<close>

lemma output_cases:
  assumes "non_max_suppression p ct it cl ag ml lb md = Inr outs" and "out \<in> set outs"
  obtains "out = []"
  | x where "x \<noteq> []" and "out = batched_nms ag it md x"
proof -
  from assms(2) obtain k where k: "k < length outs" and o: "out = outs ! k"
    by (auto simp: in_set_conv_nth)
  from non_max_suppression_Inr(6,7) [OF assms(1)] k
  have "nms_image (shape2 p - 5) ct it cl ag (ml \<and> shape2 p - 5 > 1) lb md k
        (candidates_mask ct (data p) ! k) (data p ! k) = Inr (outs ! k)"
    by simp
  then show ?thesis
  proof (cases rule: nms_image_Inr)
    case 1
    then show ?thesis using that(1) o by simp
  next
    case (2 x1 y)
    have "excess_boxes (filter_by_class cl y) \<noteq> []"
      using 2(4) by (simp add: excess_boxes_Nil)
    then show ?thesis using that(2) 2(5) o by simp
  qed
qed


section \<open>Claims on the suppression of the batch\<close>



text \<open>Claim C3. For a limit \<open>max_det \<ge> 0\<close>, the number of detections emitted for an
  image never exceeds \<open>max_det\<close>.\<close>

theorem max_det_bound:
  assumes "non_max_suppression p ct it cl ag ml lb md = Inr outs"
    and "0 \<le> md" and "out \<in> set outs"
  shows "int (length out) \<le> md"
  using assms(1,3)
proof (cases rule: output_cases)
  case 1
  with assms(2) show ?thesis by simp
next
  case (2 x)
  show ?thesis unfolding 2(2) using assms(2) by (rule length_batched_nms)
qed

theorem max_det_bound_witness:
  "non_max_suppression example_prediction (1/4) (45/100) None False False [] 300 = Inr example_output
   \<and> (0 :: int) \<le> 300 \<and> example_output ! 0 \<in> set example_output
   \<and> int (length (example_output ! 0)) \<le> 300"
  using max_det_bound [OF example_eval, of "example_output ! 0"] example_eval
  by (simp add: example_output_def)

text \<open>Claim C10. The detections emitted for an image are ordered by non-increasing
  confidence.\<close>

theorem output_sorted_by_conf:
  assumes "non_max_suppression p ct it cl ag ml lb md = Inr outs"
    and "out \<in> set outs"
  shows "sorted_wrt (\<lambda>d e. conf d \<ge> conf e) out"
  using assms(1,2)
proof (cases rule: output_cases)
  case 1
  then show ?thesis by simp
next
  case (2 x)
  show ?thesis unfolding 2(2) by (rule sorted_batched_nms)
qed

theorem output_sorted_by_conf_witness:
  "non_max_suppression example_prediction (1/4) (45/100) None False False [] 300 = Inr example_output
   \<and> example_output ! 0 \<in> set example_output
   \<and> sorted_wrt (\<lambda>d e. conf d \<ge> conf e) (example_output ! 0)"
  using output_sorted_by_conf [OF example_eval, of "example_output ! 0"] example_eval
  by (simp add: example_output_def)

section \<open>Errors\<close>

lemma label_row_error: "label_row nc l = Inl e \<Longrightarrow> e = IndexError"
  by (cases l) (auto simp: label_row_def Let_def split: if_splits)

lemma label_rows_error: "label_rows nc ls = Inl e \<Longrightarrow> e = IndexError"
  by (induction ls) (auto split: sum.splits dest: label_row_error)

lemma cat_labels_error: "cat_labels nc lb xi x = Inl e \<Longrightarrow> e = IndexError"
  by (auto simp: cat_labels_def has_labels_def split: sum.splits if_splits bool.splits
      dest: label_rows_error)

lemma best_class_error: "best_class ct bx = Inl e \<Longrightarrow> e = RuntimeError"
  by (induction ct bx rule: best_class.induct)
    (auto simp: row_max_def split: sum.splits list.splits prod.splits)

lemma detections_matrix_error: "detections_matrix nc ml ct x = Inl e \<Longrightarrow> e = RuntimeError"
  by (auto simp: detections_matrix_def Let_def split: if_splits dest: best_class_error)

lemma process_rows_error: "process_rows nc ct it cl ag ml md x = Inl e \<Longrightarrow> e = RuntimeError"
  by (auto simp: process_rows_def Let_def split: sum.splits if_splits
      dest: detections_matrix_error)

lemma nms_image_error:
  "nms_image nc ct it cl ag ml lb md xi msk x = Inl e \<Longrightarrow> e = IndexError \<or> e = RuntimeError"
  by (auto simp: nms_image_def split: sum.splits if_splits
      dest: cat_labels_error process_rows_error)

lemma nms_images_error:
  "nms_images nc ct it cl ag ml lb md xi xc ds = Inl e \<Longrightarrow> e = IndexError \<or> e = RuntimeError"
proof (induction ds arbitrary: xi)
  case Nil
  then show ?case by simp
next
  case (Cons x rest)
  then show ?case
    by (auto split: sum.splits dest: nms_image_error)
qed

text \<open>Claim C7. With \<open>conf_thres\<close> or \<open>iou_thres\<close> outside \<open>[0, 1]\<close> the call raises
  whatever the images hold: the assertion error, or the index error of line 86 when the
  tensor has fewer than five columns. With valid thresholds the assertion error is never
  raised.\<close>

theorem threshold_contract:
  "(\<not> (0 \<le> ct \<and> ct \<le> 1 \<and> 0 \<le> it \<and> it \<le> 1) \<longrightarrow>
      non_max_suppression p ct it cl ag ml lb md
        = (if shape2 p < 5 then Inl IndexError else Inl AssertionError))
   \<and> (0 \<le> ct \<and> ct \<le> 1 \<and> 0 \<le> it \<and> it \<le> 1 \<longrightarrow>
      non_max_suppression p ct it cl ag ml lb md \<noteq> Inl AssertionError)"
proof (intro conjI impI)
  assume "\<not> (0 \<le> ct \<and> ct \<le> 1 \<and> 0 \<le> it \<and> it \<le> 1)"
  then show "non_max_suppression p ct it cl ag ml lb md
        = (if shape2 p < 5 then Inl IndexError else Inl AssertionError)"
    by (auto simp: non_max_suppression_def Let_def)
next
  assume v: "0 \<le> ct \<and> ct \<le> 1 \<and> 0 \<le> it \<and> it \<le> 1"
  show "non_max_suppression p ct it cl ag ml lb md \<noteq> Inl AssertionError"
  proof
    assume a: "non_max_suppression p ct it cl ag ml lb md = Inl AssertionError"
    with v have "nms_images (shape2 p - 5) ct it cl ag (ml \<and> shape2 p - 5 > 1) lb md 0
        (candidates_mask ct (data p)) (data p) = Inl AssertionError"
      by (auto simp: non_max_suppression_def Let_def split: if_splits)
    from nms_images_error [OF this] show False by simp
  qed
qed

theorem threshold_contract_witness:
  "\<not> (0 \<le> (2 :: real) \<and> (2 :: real) \<le> 1 \<and> 0 \<le> (45/100 :: real) \<and> (45/100 :: real) \<le> 1)
   \<and> non_max_suppression example_prediction 2 (45/100) None False False [] 300 = Inl AssertionError
   \<and> (0 \<le> (1/4 :: real) \<and> (1/4 :: real) \<le> 1 \<and> 0 \<le> (45/100 :: real) \<and> (45/100 :: real) \<le> 1)
   \<and> non_max_suppression example_prediction (1/4) (45/100) None False False [] 300 \<noteq> Inl AssertionError"
  using threshold_contract [of 2 "45/100" example_prediction None False False "[]" 300]
    threshold_contract [of "1/4" "45/100" example_prediction None False False "[]" 300]
  by (simp add: example_prediction_def)

section \<open>Empty results\<close>

lemma nms_images_InrI:
  "length outs = length ds \<Longrightarrow>
   \<forall>k < length ds. nms_image nc ct it cl ag ml lb md (xi + k) (xc ! (xi + k)) (ds ! k) = Inr (outs ! k) \<Longrightarrow>
   nms_images nc ct it cl ag ml lb md xi xc ds = Inr outs"
proof (induction ds arbitrary: xi outs)
  case Nil
  then show ?case by simp
next
  case (Cons x rest)
  from Cons.prems(1) obtain out outs' where e: "outs = out # outs'" and l: "length outs' = length rest"
    by (cases outs) auto
  from Cons.prems(2) [rule_format, of 0] e
  have o: "nms_image nc ct it cl ag ml lb md xi (xc ! xi) x = Inr out" by simp
  have "\<forall>k < length rest.
      nms_image nc ct it cl ag ml lb md (Suc xi + k) (xc ! (Suc xi + k)) (rest ! k) = Inr (outs' ! k)"
  proof (intro allI impI)
    fix k assume "k < length rest"
    then show "nms_image nc ct it cl ag ml lb md (Suc xi + k) (xc ! (Suc xi + k)) (rest ! k) = Inr (outs' ! k)"
      using Cons.prems(2) [rule_format, of "Suc k"] e by simp
  qed
  from Cons.IH [OF l this] o e show ?case by simp
qed

lemma mask_select_candidates:
  "mask_select x (map (\<lambda>r. r ! 4 > ct) x) = filter (\<lambda>r. r ! 4 > ct) x"
  by (induction x) (auto simp: mask_select_def)

lemma candidates_mask_nth:
  "k < length d \<Longrightarrow> mask_select (d ! k) (candidates_mask ct d ! k) = filter (\<lambda>r. r ! 4 > ct) (d ! k)"
  by (simp add: candidates_mask_def mask_select_candidates)

text \<open>Claim C8. When no row of an image is left after the objectness gate and the apriori
  labels, after the per-class confidence gate, or after the class allowlist, the loop body
  yields the empty list for that image and raises nothing; in the batch a call returns,
  the list of such an image is empty; and a call without apriori labels on a batch in
  which no anchor passes the objectness gate returns one empty list per image.\<close>

theorem empty_result_no_error:
  "(cat_labels nc lb xi (mask_select x msk) = Inr [] \<longrightarrow>
      nms_image nc ct it cl ag ml lb md xi msk x = Inr [])
   \<and> (cat_labels nc lb xi (mask_select x msk) = Inr x1 \<and>
      detections_matrix nc ml ct (compute_conf x1) = Inr [] \<longrightarrow>
      nms_image nc ct it cl ag ml lb md xi msk x = Inr [])
   \<and> (cat_labels nc lb xi (mask_select x msk) = Inr x1 \<and>
      detections_matrix nc ml ct (compute_conf x1) = Inr y \<and> filter_by_class cl y = [] \<longrightarrow>
      nms_image nc ct it cl ag ml lb md xi msk x = Inr [])
   \<and> (non_max_suppression p ct it cl ag ml lb md = Inr outs \<and> k < length (data p) \<and>
      cat_labels (shape2 p - 5) lb k (filter (\<lambda>r. r ! 4 > ct) (data p ! k)) = Inr x2 \<and>
      (x2 = [] \<or>
       (\<exists>y. detections_matrix (shape2 p - 5) (ml \<and> shape2 p - 5 > 1) ct (compute_conf x2) = Inr y
            \<and> filter_by_class cl y = [])) \<longrightarrow>
      outs ! k = [])
   \<and> (5 \<le> shape2 p \<and> 0 \<le> ct \<and> ct \<le> 1 \<and> 0 \<le> it \<and> it \<le> 1 \<and>
      (\<forall>x \<in> set (data p). filter (\<lambda>r. r ! 4 > ct) x = []) \<longrightarrow>
      non_max_suppression p ct it cl ag ml [] md = Inr (map (\<lambda>x. []) (data p)))"
proof (intro conjI impI)
  assume "cat_labels nc lb xi (mask_select x msk) = Inr []"
  then show "nms_image nc ct it cl ag ml lb md xi msk x = Inr []"
    by (simp add: nms_image_def)
next
  assume "cat_labels nc lb xi (mask_select x msk) = Inr x1 \<and>
      detections_matrix nc ml ct (compute_conf x1) = Inr []"
  then show "nms_image nc ct it cl ag ml lb md xi msk x = Inr []"
    by (simp add: nms_image_def process_rows_def filter_by_class_def split: option.splits)
next
  assume "cat_labels nc lb xi (mask_select x msk) = Inr x1 \<and>
      detections_matrix nc ml ct (compute_conf x1) = Inr y \<and> filter_by_class cl y = []"
  then show "nms_image nc ct it cl ag ml lb md xi msk x = Inr []"
    by (simp add: nms_image_def process_rows_def)
next
  assume a: "non_max_suppression p ct it cl ag ml lb md = Inr outs \<and> k < length (data p) \<and>
      cat_labels (shape2 p - 5) lb k (filter (\<lambda>r. r ! 4 > ct) (data p ! k)) = Inr x2 \<and>
      (x2 = [] \<or>
       (\<exists>y. detections_matrix (shape2 p - 5) (ml \<and> shape2 p - 5 > 1) ct (compute_conf x2) = Inr y
            \<and> filter_by_class cl y = []))"
  then have i: "nms_image (shape2 p - 5) ct it cl ag (ml \<and> shape2 p - 5 > 1) lb md k
        (candidates_mask ct (data p) ! k) (data p ! k) = Inr (outs ! k)"
    using non_max_suppression_Inr(7) [of p ct it cl ag ml lb md outs k] by simp
  have c: "cat_labels (shape2 p - 5) lb k (mask_select (data p ! k) (candidates_mask ct (data p) ! k))
      = Inr x2"
    using a by (simp add: candidates_mask_nth)
  from a have "x2 = [] \<or>
       (\<exists>y. detections_matrix (shape2 p - 5) (ml \<and> shape2 p - 5 > 1) ct (compute_conf x2) = Inr y
            \<and> filter_by_class cl y = [])" by simp
  then have "nms_image (shape2 p - 5) ct it cl ag (ml \<and> shape2 p - 5 > 1) lb md k
        (candidates_mask ct (data p) ! k) (data p ! k) = Inr []"
    using c by (auto simp: nms_image_def process_rows_def)
  with i show "outs ! k = []" by simp
next
  assume a: "5 \<le> shape2 p \<and> 0 \<le> ct \<and> ct \<le> 1 \<and> 0 \<le> it \<and> it \<le> 1 \<and>
      (\<forall>x \<in> set (data p). filter (\<lambda>r. r ! 4 > ct) x = [])"
  have "nms_images (shape2 p - 5) ct it cl ag (ml \<and> shape2 p - 5 > 1) [] md 0
      (candidates_mask ct (data p)) (data p) = Inr (map (\<lambda>x. []) (data p))"
  proof (rule nms_images_InrI)
    show "length (map (\<lambda>x. []) (data p)) = length (data p)" by simp
  next
    show "\<forall>k < length (data p).
        nms_image (shape2 p - 5) ct it cl ag (ml \<and> shape2 p - 5 > 1) [] md (0 + k)
          (candidates_mask ct (data p) ! (0 + k)) (data p ! k) = Inr (map (\<lambda>x. []) (data p) ! k)"
    proof (intro allI impI)
      fix k assume k: "k < length (data p)"
      then have "filter (\<lambda>r. r ! 4 > ct) (data p ! k) = []" using a by simp
      then have "mask_select (data p ! k) (candidates_mask ct (data p) ! k) = []"
        using k by (simp add: candidates_mask_nth)
      then show "nms_image (shape2 p - 5) ct it cl ag (ml \<and> shape2 p - 5 > 1) [] md (0 + k)
          (candidates_mask ct (data p) ! (0 + k)) (data p ! k) = Inr (map (\<lambda>x. []) (data p) ! k)"
        using k by (simp add: nms_image_def cat_labels_def has_labels_def)
    qed
  qed
  with a
  show "non_max_suppression p ct it cl ag ml [] md = Inr (map (\<lambda>x. []) (data p))"
    by (simp add: non_max_suppression_def Let_def)
qed

lemma example_allowlist_eval:
  "non_max_suppression example_prediction (1/4) (45/100) (Some [1]) False False [] 300 = Inr [[]]"
  by (simp add: example_prediction_def nms_eval_simps)

theorem empty_result_no_error_witness:
  "cat_labels 2 [] 0 (mask_select [[0, 0, 1, 1, 1/10, 1, 1]] [False]) = Inr []
   \<and> nms_image 2 (1/4) (45/100) None False False [] 300 0 [False] [[0, 0, 1, 1, 1/10, 1, 1]] = Inr []
   \<and> cat_labels 2 [] 0 (mask_select [[0, 0, 1, 1, 1/2, 2/5, 1/5]] [True]) = Inr [[0, 0, 1, 1, 1/2, 2/5, 1/5]]
   \<and> detections_matrix 2 False (1/4) (compute_conf [[0, 0, 1, 1, 1/2, 2/5, 1/5]]) = Inr []
   \<and> nms_image 2 (1/4) (45/100) None False False [] 300 0 [True] [[0, 0, 1, 1, 1/2, 2/5, 1/5]] = Inr []
   \<and> detections_matrix 2 False (1/4) (compute_conf [[0, 0, 1, 1, 1/2, 4/5, 1/5]])
       = Inr [\<lparr>xyxy = (-1/2, -1/2, 1/2, 1/2), conf = 2/5, cls = 0\<rparr>]
   \<and> filter_by_class (Some [1]) [\<lparr>xyxy = (-1/2, -1/2, 1/2, 1/2), conf = 2/5, cls = 0\<rparr>] = []
   \<and> nms_image 2 (1/4) (45/100) (Some [1]) False False [] 300 0 [True] [[0, 0, 1, 1, 1/2, 4/5, 1/5]] = Inr []
   \<and> non_max_suppression example_prediction (1/4) (45/100) (Some [1]) False False [] 300 = Inr [[]]
   \<and> 5 \<le> shape2 \<lparr>shape2 = 7, data = [[[0, 0, 1, 1, 1/10, 1, 1]], []]\<rparr>
   \<and> non_max_suppression \<lparr>shape2 = 7, data = [[[0, 0, 1, 1, 1/10, 1, 1]], []]\<rparr> (1/4) (45/100) None False False [] 300
       = Inr [[], []]"
  using empty_result_no_error [of 2 "[]" 0 "[[0, 0, 1, 1, 1/10, 1, 1]]" "[False]" "1/4" "45/100" None False False
      300 "[]" "[]" "\<lparr>shape2 = 7, data = [[[0, 0, 1, 1, 1/10, 1, 1]], []]\<rparr>" "[]" 0 "[]"]
    empty_result_no_error [of 2 "[]" 0 "[[0, 0, 1, 1, 1/2, 2/5, 1/5]]" "[True]" "1/4" "45/100" None False False
      300 "[[0, 0, 1, 1, 1/2, 2/5, 1/5]]" "[]" "\<lparr>shape2 = 7, data = []\<rparr>" "[]" 0 "[]"]
    empty_result_no_error [of 2 "[]" 0 "[[0, 0, 1, 1, 1/2, 4/5, 1/5]]" "[True]" "1/4" "45/100" "Some [1]" False False
      300 "[[0, 0, 1, 1, 1/2, 4/5, 1/5]]" "[\<lparr>xyxy = (-1/2, -1/2, 1/2, 1/2), conf = 2/5, cls = 0\<rparr>]"
      example_prediction "[[]]" 0 "[]"]
    example_allowlist_eval
  by (simp add: nms_eval_simps)

section \<open>Cross-class overlap under the class offset\<close>








section \<open>Properties of the detections matrix\<close>

lemma set_mask_select: "set (mask_select x msk) \<subseteq> set x"
  by (auto simp: mask_select_def dest: set_zip_leftD)




lemma compute_conf_rows:
  "\<forall>r \<in> set x. length r = nc + 5 \<Longrightarrow> \<forall>r \<in> set (compute_conf x). length (drop 5 r) = nc"
  by (auto simp: compute_conf_def)






lemma filter_by_class_idem: "filter_by_class cl (filter_by_class cl y) = filter_by_class cl y"
  by (cases cl) (simp_all add: filter_by_class_def)






section \<open>Running the suppression on its own output\<close>





















section \<open>Claims on the class offset and on re-running\<close>








section \<open>Properties of the letterbox\<close>

lemma py_round_unique:
  assumes "of_int n - 1 / 2 < v" and "v < of_int n + 1 / 2"
  shows "py_round v = n"
proof -
  have f: "of_int \<lfloor>v\<rfloor> \<le> v" "v < of_int \<lfloor>v\<rfloor> + 1" by linarith+
  show ?thesis
  proof (cases "v - of_int \<lfloor>v\<rfloor> < 1 / 2")
    case True
    with assms f have "\<lfloor>v\<rfloor> = n" by linarith
    with True show ?thesis by (simp add: py_round_def Let_def)
  next
    case False
    have "v - of_int \<lfloor>v\<rfloor> \<noteq> 1 / 2"
    proof
      assume "v - of_int \<lfloor>v\<rfloor> = 1 / 2"
      with assms have "real_of_int (n - 1) < of_int \<lfloor>v\<rfloor>" "real_of_int \<lfloor>v\<rfloor> < of_int n"
        by simp_all
      then have "n - 1 < \<lfloor>v\<rfloor>" "\<lfloor>v\<rfloor> < n" by (simp_all only: of_int_less_iff)
      then show False by simp
    qed
    with False have h: "1 / 2 < v - of_int \<lfloor>v\<rfloor>" by simp
    with assms f have "\<lfloor>v\<rfloor> + 1 = n" by linarith
    with False h show ?thesis by (simp add: py_round_def Let_def)
  qed
qed

lemma py_round_of_int: "py_round (of_int n) = n"
  by (rule py_round_unique) simp_all

lemma py_round_le:
  assumes "v \<le> of_int n"
  shows "py_round v \<le> n"
proof -
  have f: "of_int \<lfloor>v\<rfloor> \<le> v" "v < of_int \<lfloor>v\<rfloor> + 1" by linarith+
  have "py_round v \<le> \<lfloor>v\<rfloor> + 1" by (simp add: py_round_def Let_def)
  show ?thesis
  proof (cases "\<lfloor>v\<rfloor> < n")
    case True
    with \<open>py_round v \<le> \<lfloor>v\<rfloor> + 1\<close> show ?thesis by simp
  next
    case False
    with assms f have "v = of_int n" by linarith
    then show ?thesis by (simp add: py_round_of_int)
  qed
qed

lemma borders_half: "borders (real_of_int d / 2) = (d div 2, d - d div 2)"
proof (cases "even d")
  case True
  then obtain k where d: "d = 2 * k" by (auto elim: evenE)
  have "py_round (real_of_int k - 1 / 10) = k" by (rule py_round_unique) simp_all
  moreover have "py_round (real_of_int k + 1 / 10) = k" by (rule py_round_unique) simp_all
  ultimately show ?thesis by (simp add: borders_def d)
next
  case False
  then obtain k where d: "d = 2 * k + 1" by (auto elim: oddE)
  have h: "real_of_int d / 2 = real_of_int k + 1 / 2" by (simp add: d)
  have "py_round (real_of_int k + 1 / 2 - 1 / 10) = k" by (rule py_round_unique) simp_all
  moreover have "py_round (real_of_int k + 1 / 2 + 1 / 10) = k + 1" by (rule py_round_unique) simp_all
  ultimately show ?thesis unfolding borders_def h by (simp add: d)
qed

lemma borders_sum: "fst (borders (real_of_int d / 2)) + snd (borders (real_of_int d / 2)) = d"
  by (simp add: borders_half)

lemma borders_diff:
  "snd (borders (real_of_int d / 2)) - fst (borders (real_of_int d / 2)) \<in> {0, 1}"
proof -
  have "d - d div 2 - d div 2 = d mod 2" by (simp add: minus_div_mult_eq_mod [symmetric])
  then show ?thesis by (auto simp: borders_half)
qed

lemma borders_nonneg:
  "0 \<le> d \<Longrightarrow> 0 \<le> fst (borders (real_of_int d / 2)) \<and> 0 \<le> snd (borders (real_of_int d / 2))"
  by (simp add: borders_half)

lemma scale_ratio_le:
  assumes "0 < im_height im" "0 < im_width im"
  shows "real_of_int (im_width im) * scale_ratio im (th, tw) scaleup \<le> real_of_int tw"
    and "real_of_int (im_height im) * scale_ratio im (th, tw) scaleup \<le> real_of_int th"
proof -
  let ?r = "scale_ratio im (th, tw) scaleup"
  have "?r \<le> real_of_int tw / real_of_int (im_width im)"
    by (auto simp: scale_ratio_def Let_def)
  then have "real_of_int (im_width im) * ?r \<le> real_of_int (im_width im) * (real_of_int tw / real_of_int (im_width im))"
    using assms(2) by (intro mult_left_mono) simp_all
  then show "real_of_int (im_width im) * ?r \<le> real_of_int tw" using assms(2) by simp
  have "?r \<le> real_of_int th / real_of_int (im_height im)"
    by (auto simp: scale_ratio_def Let_def)
  then have "real_of_int (im_height im) * ?r \<le> real_of_int (im_height im) * (real_of_int th / real_of_int (im_height im))"
    using assms(1) by (intro mult_left_mono) simp_all
  then show "real_of_int (im_height im) * ?r \<le> real_of_int th" using assms(1) by simp
qed

lemma unpad_size_le:
  assumes "0 < im_height im" "0 < im_width im"
  shows "fst (unpad_size im (scale_ratio im (th, tw) scaleup)) \<le> tw"
    and "snd (unpad_size im (scale_ratio im (th, tw) scaleup)) \<le> th"
  using scale_ratio_le [OF assms, of th tw scaleup]
  by (simp_all add: unpad_size_def py_round_le)

text \<open>The dimensions of the image \<^verbatim>\<open>letterbox\<close> returns: the unpadded size plus the padding
  of each axis.\<close>

lemma letterbox_Inr:
  assumes "letterbox im new_shape auto scaleFill scaleup stride = Inr (im', ratio, (dw, dh))"
    and "letterbox_padding im (target_shape new_shape) auto scaleFill scaleup stride
          = (new_unpad, (pw, ph), ratio')"
  shows "dw = real_of_int pw / 2" and "dh = real_of_int ph / 2"
    and "im_height im' = snd new_unpad + ph" and "im_width im' = fst new_unpad + pw"
    and "im_height im' = snd new_unpad + fst (borders dh) + snd (borders dh)"
    and "im_width im' = fst new_unpad + fst (borders dw) + snd (borders dw)"
proof -
  let ?im1 = "if (im_width im, im_height im) \<noteq> new_unpad then cv2_resize im new_unpad else Inr im"
  from assms obtain im1 where r: "?im1 = Inr im1"
    and b: "cv2_copyMakeBorder im1 (fst (borders (real_of_int ph / 2))) (snd (borders (real_of_int ph / 2)))
              (fst (borders (real_of_int pw / 2))) (snd (borders (real_of_int pw / 2))) = Inr im'"
    and d: "dw = real_of_int pw / 2" "dh = real_of_int ph / 2"
    by (auto simp: letterbox_def Let_def split: if_splits sum.splits)
  from r have i: "im_height im1 = snd new_unpad" "im_width im1 = fst new_unpad"
    by (auto simp: cv2_resize_def split: if_splits)
  from b have "im_height im' = im_height im1 + fst (borders (real_of_int ph / 2)) + snd (borders (real_of_int ph / 2))"
    and "im_width im' = im_width im1 + fst (borders (real_of_int pw / 2)) + snd (borders (real_of_int pw / 2))"
    by (auto simp: cv2_copyMakeBorder_def split: if_splits)
  with i show "im_height im' = snd new_unpad + ph" and "im_width im' = fst new_unpad + pw"
    and "im_height im' = snd new_unpad + fst (borders dh) + snd (borders dh)"
    and "im_width im' = fst new_unpad + fst (borders dw) + snd (borders dw)"
    unfolding d using borders_sum [of ph] borders_sum [of pw] by simp_all
  show "dw = real_of_int pw / 2" and "dh = real_of_int ph / 2" by (fact d)+
qed

section \<open>Claims on the letterbox\<close>

lemmas letterbox_eval_simps = letterbox_def letterbox_padding_def target_shape_def scale_ratio_def
  unpad_size_def py_round_def np_mod_def cv2_resize_def cv2_copyMakeBorder_def borders_def Let_def

lemma letterbox_example_auto:
  "letterbox \<lparr>im_height = 335, im_width = 500\<rparr> (Square 640) True False True 32
     = Inr (\<lparr>im_height = 448, im_width = 640\<rparr>, (32 / 25, 32 / 25), (0, 19 / 2))"
  by (simp add: letterbox_eval_simps)

lemma letterbox_example_fixed:
  "letterbox \<lparr>im_height = 335, im_width = 500\<rparr> (Square 640) False False True 32
     = Inr (\<lparr>im_height = 640, im_width = 640\<rparr>, (32 / 25, 32 / 25), (0, 211 / 2))"
  by (simp add: letterbox_eval_simps)

text \<open>Claim C4 as stated fails in auto mode for a target that is not a multiple of the
  stride: a 10 by 20 image with target 100 and stride 32 comes back 68 by 100.\<close>

theorem letterbox_stride_counterexample:
  "letterbox \<lparr>im_height = 10, im_width = 20\<rparr> (Square 100) True False True 32
     = Inr (\<lparr>im_height = 68, im_width = 100\<rparr>, (5, 5), (0, 9))
   \<and> \<not> (32 :: int) dvd 68 \<and> \<not> (32 :: int) dvd 100"
  by (simp add: letterbox_eval_simps)

lemma letterbox_returns:
  assumes "0 < im_height im" "0 < im_width im" "auto \<longrightarrow> 0 < stride"
    and "case (if \<not> auto \<and> scaleFill
               then (snd (target_shape new_shape), fst (target_shape new_shape))
               else unpad_size im (scale_ratio im (target_shape new_shape) scaleup)) of
           (uw, uh) \<Rightarrow> 0 < uw \<and> 0 < uh"
  shows "\<exists>res. letterbox im new_shape auto scaleFill scaleup stride = Inr res"
proof -
  obtain th tw where t: "target_shape new_shape = (th, tw)" by (cases "target_shape new_shape") auto
  obtain uw uh where u: "unpad_size im (scale_ratio im (th, tw) scaleup) = (uw, uh)"
    by (cases "unpad_size im (scale_ratio im (th, tw) scaleup)") auto
  from unpad_size_le [OF assms(1,2), of th tw scaleup] u have le: "uw \<le> tw" "uh \<le> th" by simp_all
  obtain new_unpad pw ph ratio where
    p: "letterbox_padding im (th, tw) auto scaleFill scaleup stride = (new_unpad, (pw, ph), ratio)"
    by (cases "letterbox_padding im (th, tw) auto scaleFill scaleup stride") auto
  have pos: "0 < fst new_unpad \<and> 0 < snd new_unpad" and pad: "0 \<le> pw \<and> 0 \<le> ph"
    using p assms(3,4) le
    by (auto simp: t u letterbox_padding_def Let_def np_mod_def split: if_splits)
  from pos have "\<exists>im1.
      (if (im_width im, im_height im) \<noteq> new_unpad then cv2_resize im new_unpad else Inr im) = Inr im1"
    by (simp add: cv2_resize_def)
  then obtain im1 where
    r: "(if (im_width im, im_height im) \<noteq> new_unpad then cv2_resize im new_unpad else Inr im) = Inr im1"
    by blast
  from pad have "0 \<le> fst (borders (real_of_int ph / 2)) \<and> 0 \<le> snd (borders (real_of_int ph / 2))"
    and "0 \<le> fst (borders (real_of_int pw / 2)) \<and> 0 \<le> snd (borders (real_of_int pw / 2))"
    by (simp_all add: borders_nonneg)
  then obtain im2 where
    "cv2_copyMakeBorder im1 (fst (borders (real_of_int ph / 2))) (snd (borders (real_of_int ph / 2)))
       (fst (borders (real_of_int pw / 2))) (snd (borders (real_of_int pw / 2))) = Inr im2"
    by (auto simp: cv2_copyMakeBorder_def)
  with r p t assms(1,2)
  have "letterbox im new_shape auto scaleFill scaleup stride
      = Inr (im2, ratio, (real_of_int pw / 2, real_of_int ph / 2))"
    by (simp add: letterbox_def Let_def)
  then show ?thesis by blast
qed

text \<open>Claim C4, amended. For an image of positive height and width, the image
  \<open>letterbox\<close> returns has exactly the target size when auto mode is off. In auto mode, with
  a positive stride, each dimension is the scaled dimension plus the remainder of
  (target - scaled) modulo the stride: at least the scaled dimension, less than it plus the
  stride, and a multiple of the stride when the target dimension is one. The two borders of
  each axis differ by at most one pixel and add up to the padding of the axis. The call
  returns whenever the size the image is resized to is positive (and the stride is, in auto
  mode).\<close>

theorem letterbox_dimensions:
  "(0 < im_height im \<and> 0 < im_width im
      \<and> letterbox im new_shape auto scaleFill scaleup stride = Inr (im', ratio, (dw, dh)) \<longrightarrow>
        (\<not> auto \<longrightarrow> (im_height im', im_width im') = target_shape new_shape)
      \<and> (auto \<and> 0 < stride \<longrightarrow>
           (case unpad_size im (scale_ratio im (target_shape new_shape) scaleup) of (uw, uh) \<Rightarrow>
            case target_shape new_shape of (th, tw) \<Rightarrow>
              im_height im' = uh + (th - uh) mod stride \<and> im_width im' = uw + (tw - uw) mod stride
              \<and> uh \<le> im_height im' \<and> im_height im' < uh + stride
              \<and> uw \<le> im_width im' \<and> im_width im' < uw + stride
              \<and> (stride dvd th \<longrightarrow> stride dvd im_height im')
              \<and> (stride dvd tw \<longrightarrow> stride dvd im_width im')))
      \<and> snd (borders dh) - fst (borders dh) \<in> {0, 1}
      \<and> snd (borders dw) - fst (borders dw) \<in> {0, 1}
      \<and> (case letterbox_padding im (target_shape new_shape) auto scaleFill scaleup stride of
            (new_unpad, pads) \<Rightarrow>
              im_height im' = snd new_unpad + fst (borders dh) + snd (borders dh)
              \<and> im_width im' = fst new_unpad + fst (borders dw) + snd (borders dw)))
   \<and> (0 < im_height im \<and> 0 < im_width im \<and> (auto \<longrightarrow> 0 < stride)
      \<and> (case (if \<not> auto \<and> scaleFill
                then (snd (target_shape new_shape), fst (target_shape new_shape))
                else unpad_size im (scale_ratio im (target_shape new_shape) scaleup)) of
            (uw, uh) \<Rightarrow> 0 < uw \<and> 0 < uh) \<longrightarrow>
        (\<exists>res. letterbox im new_shape auto scaleFill scaleup stride = Inr res))"
proof (rule conjI; rule impI)
  assume a: "0 < im_height im \<and> 0 < im_width im
      \<and> letterbox im new_shape auto scaleFill scaleup stride = Inr (im', ratio, (dw, dh))"
  obtain th tw where t: "target_shape new_shape = (th, tw)" by (cases "target_shape new_shape") auto
  obtain uw uh where u: "unpad_size im (scale_ratio im (th, tw) scaleup) = (uw, uh)"
    by (cases "unpad_size im (scale_ratio im (th, tw) scaleup)") auto
  obtain new_unpad pw ph ratio' where
    p: "letterbox_padding im (th, tw) auto scaleFill scaleup stride = (new_unpad, (pw, ph), ratio')"
    by (cases "letterbox_padding im (th, tw) auto scaleFill scaleup stride") auto
  from a have l: "letterbox im new_shape auto scaleFill scaleup stride = Inr (im', ratio, (dw, dh))"
    by simp
  note r = letterbox_Inr [OF l p [folded t]]
  have fixed: "(im_height im', im_width im') = (th, tw)" if "\<not> auto"
    using that p r(3,4) by (auto simp: u letterbox_padding_def Let_def split: if_splits)
  have au: "new_unpad = (uw, uh) \<and> pw = (tw - uw) mod stride \<and> ph = (th - uh) mod stride"
    if "auto" "0 < stride"
    using that p by (auto simp: u letterbox_padding_def Let_def np_mod_def)
  have auto_dims: "im_height im' = uh + (th - uh) mod stride \<and> im_width im' = uw + (tw - uw) mod stride
      \<and> uh \<le> im_height im' \<and> im_height im' < uh + stride
      \<and> uw \<le> im_width im' \<and> im_width im' < uw + stride
      \<and> (stride dvd th \<longrightarrow> stride dvd im_height im')
      \<and> (stride dvd tw \<longrightarrow> stride dvd im_width im')" if "auto" "0 < stride"
  proof -
    from au [OF that] r(3,4)
    have h: "im_height im' = uh + (th - uh) mod stride" and w: "im_width im' = uw + (tw - uw) mod stride"
      by simp_all
    have "im_height im' mod stride = th mod stride" unfolding h by (simp add: mod_add_right_eq)
    moreover have "im_width im' mod stride = tw mod stride" unfolding w by (simp add: mod_add_right_eq)
    ultimately have "stride dvd th \<longrightarrow> stride dvd im_height im'" "stride dvd tw \<longrightarrow> stride dvd im_width im'"
      by (simp_all add: dvd_eq_mod_eq_0)
    then show ?thesis using h w that(2) by simp
  qed
  have d: "snd (borders dh) - fst (borders dh) \<in> {0, 1}" "snd (borders dw) - fst (borders dw) \<in> {0, 1}"
    unfolding r(1,2) by (rule borders_diff)+
  show "(\<not> auto \<longrightarrow> (im_height im', im_width im') = target_shape new_shape)
      \<and> (auto \<and> 0 < stride \<longrightarrow>
           (case unpad_size im (scale_ratio im (target_shape new_shape) scaleup) of (uw, uh) \<Rightarrow>
            case target_shape new_shape of (th, tw) \<Rightarrow>
              im_height im' = uh + (th - uh) mod stride \<and> im_width im' = uw + (tw - uw) mod stride
              \<and> uh \<le> im_height im' \<and> im_height im' < uh + stride
              \<and> uw \<le> im_width im' \<and> im_width im' < uw + stride
              \<and> (stride dvd th \<longrightarrow> stride dvd im_height im')
              \<and> (stride dvd tw \<longrightarrow> stride dvd im_width im')))
      \<and> snd (borders dh) - fst (borders dh) \<in> {0, 1}
      \<and> snd (borders dw) - fst (borders dw) \<in> {0, 1}
      \<and> (case letterbox_padding im (target_shape new_shape) auto scaleFill scaleup stride of
            (new_unpad, pads) \<Rightarrow>
              im_height im' = snd new_unpad + fst (borders dh) + snd (borders dh)
              \<and> im_width im' = fst new_unpad + fst (borders dw) + snd (borders dw))"
    unfolding t u p prod.case using fixed auto_dims d r(5,6) by blast
next
  assume b: "0 < im_height im \<and> 0 < im_width im \<and> (auto \<longrightarrow> 0 < stride)
      \<and> (case (if \<not> auto \<and> scaleFill
                then (snd (target_shape new_shape), fst (target_shape new_shape))
                else unpad_size im (scale_ratio im (target_shape new_shape) scaleup)) of
            (uw, uh) \<Rightarrow> 0 < uw \<and> 0 < uh)"
  show "\<exists>res. letterbox im new_shape auto scaleFill scaleup stride = Inr res"
    by (rule letterbox_returns [OF b [THEN conjunct1] b [THEN conjunct2, THEN conjunct1]
          b [THEN conjunct2, THEN conjunct2, THEN conjunct1]
          b [THEN conjunct2, THEN conjunct2, THEN conjunct2]])
qed

theorem letterbox_dimensions_witness:
  "(0 :: int) < 335 \<and> (0 :: int) < 500
   \<and> letterbox \<lparr>im_height = 335, im_width = 500\<rparr> (Square 640) True False True 32
       = Inr (\<lparr>im_height = 448, im_width = 640\<rparr>, (32 / 25, 32 / 25), (0, 19 / 2))
   \<and> unpad_size \<lparr>im_height = 335, im_width = 500\<rparr> (32 / 25) = (640, 429)
   \<and> (32 :: int) dvd 640 \<and> (32 :: int) dvd 448
   \<and> borders (19 / 2) = (9, 10) \<and> borders 0 = (0, 0)
   \<and> letterbox \<lparr>im_height = 335, im_width = 500\<rparr> (Square 640) False False True 32
       = Inr (\<lparr>im_height = 640, im_width = 640\<rparr>, (32 / 25, 32 / 25), (0, 211 / 2))
   \<and> target_shape (Square 640) = (640, 640)
   \<and> borders (211 / 2) = (105, 106)"
  using letterbox_dimensions [of "\<lparr>im_height = 335, im_width = 500\<rparr>" "Square 640" True False True 32
      "\<lparr>im_height = 448, im_width = 640\<rparr>" "(32 / 25, 32 / 25)" 0 "19 / 2"]
    letterbox_dimensions [of "\<lparr>im_height = 335, im_width = 500\<rparr>" "Square 640" False False True 32
      "\<lparr>im_height = 640, im_width = 640\<rparr>" "(32 / 25, 32 / 25)" 0 "211 / 2"]
    letterbox_example_auto letterbox_example_fixed
  by (simp add: unpad_size_def py_round_def borders_def target_shape_def Let_def)

section \<open>The store after the call\<close>

lemma rows_of_new_tensor: "new_tensor h m = (x, h') \<Longrightarrow> rows_of h' x = m"
  by (auto simp: new_tensor_def)

lemma slice_write_through:
  "a < length h \<Longrightarrow> h ! a = Buf3 t \<Longrightarrow>
     assign_rows h (Slice a i) m ! a = Buf3 (t\<lparr>data := (data t)[i := m]\<rparr>)"
  by simp

lemma rows_of_slice_append:
  "a < length h \<Longrightarrow> rows_of (h @ ext) (Slice a i) = rows_of h (Slice a i)"
  by (simp add: nth_append)

lemma nms_image_heap_sound:
  "\<exists>ext. nms_image_heap nc ct it cl ag ml lb md xi msk h x
          = (nms_image nc ct it cl ag ml lb md xi msk (rows_of h x), h @ ext)"
proof (cases "has_labels lb xi")
  case (Inl e)
  then show ?thesis
    by (simp add: nms_image_heap_def nms_image_def cat_labels_def new_tensor_def)
next
  case (Inr b)
  let ?m = "mask_select (rows_of h x) msk"
  show ?thesis
  proof (cases b)
    case False
    show ?thesis
    proof (cases "?m = []")
      case True
      with Inr False show ?thesis
        by (simp add: nms_image_heap_def nms_image_def cat_labels_def new_tensor_def)
    next
      case m: False
      have "(h @ [Buf2 ?m])[length h := Buf2 (compute_conf ?m)] = h @ [Buf2 (compute_conf ?m)]"
        by simp
      with Inr False m show ?thesis
        by (simp add: nms_image_heap_def nms_image_def cat_labels_def new_tensor_def)
    qed
  next
    case True
    show ?thesis
    proof (cases "label_rows nc (lb ! xi)")
      case (Inl e)
      with Inr True show ?thesis
        by (simp add: nms_image_heap_def nms_image_def cat_labels_def new_tensor_def)
    next
      case v: (Inr v)
      have r: "rows_of (h @ [Buf2 ?m, Buf2 v]) (Owned (length h)) = ?m"
        "rows_of (h @ [Buf2 ?m, Buf2 v]) (Owned (Suc (length h))) = v"
        "rows_of (h @ [Buf2 ?m, Buf2 v, Buf2 (?m @ v)]) (Owned (Suc (Suc (length h)))) = ?m @ v"
        by (simp_all add: nth_append)
      have u: "(h @ [Buf2 ?m, Buf2 v, Buf2 (?m @ v)])[Suc (Suc (length h)) := Buf2 c]
          = h @ [Buf2 ?m, Buf2 v, Buf2 c]" for c
        by (simp add: list_update_append)
      have w: "rows_of (h @ [Buf2 ?m, Buf2 v, Buf2 c]) (Owned (Suc (Suc (length h)))) = c" for c
        by (simp add: nth_append)
      show ?thesis
      proof (cases "?m @ v = []")
        case e: True
        with Inr True v r show ?thesis
          by (simp add: nms_image_heap_def nms_image_def cat_labels_def new_tensor_def)
      next
        case e: False
        with Inr True v r u w show ?thesis
          by (auto simp: nms_image_heap_def nms_image_def cat_labels_def new_tensor_def)
      qed
    qed
  qed
qed

lemma nms_images_heap_sound:
  assumes "prediction < length h0" and "h0 ! prediction = Buf3 p"
  shows "xi + n = length (data p) \<Longrightarrow>
     \<exists>ext'. nms_images_heap nc ct it cl ag ml lb md xi xc prediction n (h0 @ ext)
             = (nms_images nc ct it cl ag ml lb md xi xc (drop xi (data p)), h0 @ ext')"
proof (induction n arbitrary: xi ext)
  case 0
  then show ?case by simp
next
  case (Suc n)
  from Suc.prems have xi: "xi < length (data p)" by simp
  then have d: "drop xi (data p) = data p ! xi # drop (Suc xi) (data p)"
    by (simp add: Cons_nth_drop_Suc)
  have rd: "rows_of (h0 @ ext) (Slice prediction xi) = data p ! xi"
    using assms by (simp add: nth_append)
  obtain e1 where i: "nms_image_heap nc ct it cl ag ml lb md xi (xc ! xi) (h0 @ ext) (Slice prediction xi)
      = (nms_image nc ct it cl ag ml lb md xi (xc ! xi) (data p ! xi), (h0 @ ext) @ e1)"
    using nms_image_heap_sound [of nc ct it cl ag ml lb md xi "xc ! xi" "h0 @ ext" "Slice prediction xi"]
    unfolding rd by blast
  from Suc.prems have "Suc xi + n = length (data p)" by simp
  from Suc.IH [OF this, of "ext @ e1"] obtain e2 where
    r: "nms_images_heap nc ct it cl ag ml lb md (Suc xi) xc prediction n (h0 @ ext @ e1)
        = (nms_images nc ct it cl ag ml lb md (Suc xi) xc (drop (Suc xi) (data p)), h0 @ e2)"
    by blast
  show ?case
  proof (cases "nms_image nc ct it cl ag ml lb md xi (xc ! xi) (data p ! xi)")
    case (Inl e)
    with i d have "nms_images_heap nc ct it cl ag ml lb md xi xc prediction (Suc n) (h0 @ ext)
        = (nms_images nc ct it cl ag ml lb md xi xc (drop xi (data p)), h0 @ (ext @ e1))"
      by simp
    then show ?thesis by blast
  next
    case (Inr out)
    with i d r have "nms_images_heap nc ct it cl ag ml lb md xi xc prediction (Suc n) (h0 @ ext)
        = (nms_images nc ct it cl ag ml lb md xi xc (drop xi (data p)), h0 @ e2)"
      by (simp split: sum.splits)
    then show ?thesis by blast
  qed
qed

lemma non_max_suppression_heap_sound:
  assumes "prediction < length h" and "h ! prediction = Buf3 p"
  shows "\<exists>ext. non_max_suppression_heap h prediction ct it cl ag ml lb md
           = (non_max_suppression p ct it cl ag ml lb md, h @ ext)"
proof -
  have "\<exists>ext'. nms_images_heap (shape2 p - 5) ct it cl ag (ml \<and> shape2 p - 5 > 1) lb md 0
           (candidates_mask ct (data p)) prediction (length (data p)) (h @ [])
        = (nms_images (shape2 p - 5) ct it cl ag (ml \<and> shape2 p - 5 > 1) lb md 0
             (candidates_mask ct (data p)) (drop 0 (data p)), h @ ext')"
    using assms by (intro nms_images_heap_sound) simp_all
  then obtain e where "nms_images_heap (shape2 p - 5) ct it cl ag (ml \<and> shape2 p - 5 > 1) lb md 0
           (candidates_mask ct (data p)) prediction (length (data p)) h
        = (nms_images (shape2 p - 5) ct it cl ag (ml \<and> shape2 p - 5 > 1) lb md 0
             (candidates_mask ct (data p)) (data p), h @ e)"
    by auto
  then have "non_max_suppression_heap h prediction ct it cl ag ml lb md
      = (non_max_suppression p ct it cl ag ml lb md,
         h @ (if shape2 p < 5 \<or> \<not> (0 \<le> ct \<and> ct \<le> 1) \<or> \<not> (0 \<le> it \<and> it \<le> 1) then [] else e))"
    using assms(2) by (simp add: non_max_suppression_heap_def non_max_suppression_def Let_def)
  then show ?thesis by blast
qed

text \<open>Claim C9. The call leaves the buffer of its argument, and every buffer that existed
  before it, unchanged: the in-place product of line 120 writes to the tensor that the
  mask indexing of line 104 (or \<^verbatim>\<open>torch.cat\<close>) created. What the call returns is what
  \<open>non_max_suppression\<close> computes from the contents of the argument.\<close>

theorem prediction_unchanged:
  "prediction < length h \<and> h ! prediction = Buf3 p \<longrightarrow>
     snd (non_max_suppression_heap h prediction ct it cl ag ml lb md) ! prediction = Buf3 p
     \<and> take (length h) (snd (non_max_suppression_heap h prediction ct it cl ag ml lb md)) = h
     \<and> fst (non_max_suppression_heap h prediction ct it cl ag ml lb md)
         = non_max_suppression p ct it cl ag ml lb md"
proof
  assume a: "prediction < length h \<and> h ! prediction = Buf3 p"
  then obtain ext where "non_max_suppression_heap h prediction ct it cl ag ml lb md
           = (non_max_suppression p ct it cl ag ml lb md, h @ ext)"
    using non_max_suppression_heap_sound [of prediction h p ct it cl ag ml lb md] by blast
  with a show "snd (non_max_suppression_heap h prediction ct it cl ag ml lb md) ! prediction = Buf3 p
     \<and> take (length h) (snd (non_max_suppression_heap h prediction ct it cl ag ml lb md)) = h
     \<and> fst (non_max_suppression_heap h prediction ct it cl ag ml lb md)
         = non_max_suppression p ct it cl ag ml lb md"
    by (simp add: nth_append)
qed

theorem prediction_unchanged_witness:
  "(0 :: nat) < length [Buf3 example_prediction] \<and> [Buf3 example_prediction] ! 0 = Buf3 example_prediction
   \<and> snd (non_max_suppression_heap [Buf3 example_prediction] 0 (1/4) (45/100) None False False [] 300) ! 0
       = Buf3 example_prediction
   \<and> fst (non_max_suppression_heap [Buf3 example_prediction] 0 (1/4) (45/100) None False False [] 300)
       = Inr example_output"
  using prediction_unchanged [of 0 "[Buf3 example_prediction]" example_prediction "1/4" "45/100" None
      False False "[]" 300] example_eval
  by simp



text \<open>The store tells a view from a copy: the same product written through the view of an
  image changes the argument.\<close>

lemma in_place_on_view_changes:
  "assign_rows [Buf3 example_prediction] (Slice 0 0)
      (compute_conf (rows_of [Buf3 example_prediction] (Slice 0 0))) \<noteq> [Buf3 example_prediction]"
  by (simp add: example_prediction_def compute_conf_def)

section \<open>The call returns\<close>

lemma row_max_Inr: "cs \<noteq> [] \<Longrightarrow> \<exists>c j. row_max cs = Inr (c, j)"
  by (cases cs) (auto simp: row_max_def intro: prod.exhaust)

lemma best_class_returns:
  "\<forall>(b, r) \<in> set bx. drop 5 r \<noteq> [] \<Longrightarrow> \<exists>y. best_class ct bx = Inr y"
proof (induction bx)
  case Nil
  then show ?case by simp
next
  case (Cons p rest)
  obtain b r where p: "p = (b, r)" by (cases p) auto
  with Cons.prems have "drop 5 r \<noteq> []" by simp
  from row_max_Inr [OF this] obtain c j where m: "row_max (drop 5 r) = Inr (c, j)" by blast
  from Cons obtain ds where "best_class ct rest = Inr ds" by auto
  with m p show ?case by simp
qed

lemma detections_matrix_returns:
  assumes "\<forall>r \<in> set x. drop 5 r \<noteq> []"
  shows "\<exists>y. detections_matrix nc ml ct x = Inr y"
proof (cases ml)
  case True
  then show ?thesis by (simp add: detections_matrix_def)
next
  case False
  have "\<forall>(b, r) \<in> set (zip (xywh2xyxy (box_columns x)) x). drop 5 r \<noteq> []"
    using assms by (auto dest: set_zip_rightD)
  from best_class_returns [OF this, of ct] False show ?thesis
    by (simp add: detections_matrix_def)
qed

lemma nms_image_returns:
  assumes "\<forall>r \<in> set x. length r = nc + 5" and "0 < nc"
  shows "\<exists>out. nms_image nc ct it cl ag ml [] md xi msk x = Inr out"
proof -
  have c: "cat_labels nc [] xi (mask_select x msk) = Inr (mask_select x msk)"
    by (simp add: cat_labels_def has_labels_def)
  have "\<forall>r \<in> set (mask_select x msk). length r = nc + 5"
    using assms(1) set_mask_select [of x msk] by auto
  then have "\<forall>r \<in> set (compute_conf (mask_select x msk)). length (drop 5 r) = nc"
    by (rule compute_conf_rows)
  with assms(2) have "\<forall>r \<in> set (compute_conf (mask_select x msk)). drop 5 r \<noteq> []"
    by auto
  from detections_matrix_returns [OF this, of nc ml ct]
  obtain y where "detections_matrix nc ml ct (compute_conf (mask_select x msk)) = Inr y" by blast
  then show ?thesis
    by (simp add: nms_image_def c process_rows_def Let_def)
qed

lemma nms_images_returns:
  assumes "\<forall>x \<in> set ds. \<forall>r \<in> set x. length r = nc + 5" and "0 < nc"
  shows "\<exists>outs. nms_images nc ct it cl ag ml [] md xi xc ds = Inr outs"
  using assms(1)
proof (induction ds arbitrary: xi)
  case Nil
  then show ?case by simp
next
  case (Cons x rest)
  from Cons.prems have "\<forall>r \<in> set x. length r = nc + 5" by simp
  from nms_image_returns [OF this assms(2), of ct it cl ag ml md xi "xc ! xi"]
  obtain out where o: "nms_image nc ct it cl ag ml [] md xi (xc ! xi) x = Inr out" by blast
  from Cons.prems have "\<forall>x \<in> set rest. \<forall>r \<in> set x. length r = nc + 5" by simp
  from Cons.IH [OF this, of "Suc xi"]
  obtain outs where "nms_images nc ct it cl ag ml [] md (Suc xi) xc rest = Inr outs"
    by blast
  with o show ?case by simp
qed

text \<open>On a well-formed tensor with at least one class, with valid thresholds and without
  apriori labels, the call returns a list of detections for every image.\<close>

lemma non_max_suppression_returns:
  assumes "wf_tensor3 p" and "6 \<le> shape2 p"
    and "0 \<le> ct" "ct \<le> 1" "0 \<le> it" "it \<le> 1"
  shows "\<exists>outs. non_max_suppression p ct it cl ag ml [] md = Inr outs"
proof -
  have "\<forall>x \<in> set (data p). \<forall>r \<in> set x. length r = (shape2 p - 5) + 5"
    using assms(1,2) by (auto simp: wf_tensor3_def list_all_iff)
  moreover have "0 < shape2 p - 5" using assms(2) by simp
  ultimately obtain outs where
    "nms_images (shape2 p - 5) ct it cl ag (ml \<and> shape2 p - 5 > 1) [] md 0
       (candidates_mask ct (data p)) (data p) = Inr outs"
    using nms_images_returns by blast
  with assms show ?thesis by (simp add: non_max_suppression_def Let_def)
qed

end
